theory Spec2Isabelle
  imports Main "HOL-Library.Sorting_Algorithms" "HOL-Library.List_Lexorder"
begin

section \<open>JavaScript strings and the built-ins the code calls\<close>

text \<open>
  A JavaScript string is a sequence of UTF-16 code units; \<open>str[i]\<close> and
  \<open>str.charCodeAt(i)\<close> read one unit. A unit is a number below 65536.
\<close>

type_synonym jsstring = "nat list"

definition js :: "string \<Rightarrow> jsstring" where
  "js s = map of_char s"

text \<open>The class \<open>\s\<close> of regular expressions, which is also what \<open>trim()\<close> removes.\<close>

definition isSpace :: "nat \<Rightarrow> bool" where
  "isSpace c \<longleftrightarrow>
     (9 \<le> c \<and> c \<le> 13) \<or> c = 32 \<or> c = 160 \<or> c = 5760
     \<or> (8192 \<le> c \<and> c \<le> 8202) \<or> c = 8232 \<or> c = 8233 \<or> c = 8239
     \<or> c = 8287 \<or> c = 12288 \<or> c = 65279"

definition isDigit :: "nat \<Rightarrow> bool" where
  "isDigit c \<longleftrightarrow> 48 \<le> c \<and> c \<le> 57"

definition isAlphaNum :: "nat \<Rightarrow> bool" where
  "isAlphaNum c \<longleftrightarrow> isDigit c \<or> (65 \<le> c \<and> c \<le> 90) \<or> (97 \<le> c \<and> c \<le> 122)"

text \<open>The class \<open>\w\<close>.\<close>

definition isWord :: "nat \<Rightarrow> bool" where
  "isWord c \<longleftrightarrow> isAlphaNum c \<or> c = 95"

definition trim :: "jsstring \<Rightarrow> jsstring" where
  "trim s = rev (dropWhile isSpace (rev (dropWhile isSpace s)))"

definition startsWith :: "jsstring \<Rightarrow> jsstring \<Rightarrow> bool" where
  "startsWith s p \<longleftrightarrow> take (length p) s = p"

definition endsWith :: "jsstring \<Rightarrow> jsstring \<Rightarrow> bool" where
  "endsWith s p \<longleftrightarrow> length p \<le> length s \<and> drop (length s - length p) s = p"

definition padStart :: "nat \<Rightarrow> nat \<Rightarrow> jsstring \<Rightarrow> jsstring" where
  "padStart n c s = replicate (n - length s) c @ s"

definition padEnd :: "int \<Rightarrow> jsstring \<Rightarrow> jsstring" where
  "padEnd n s = s @ replicate (nat n - length s) 32"

definition hexDigit :: "nat \<Rightarrow> nat" where
  "hexDigit d = (if d < 10 then 48 + d else 87 + d)"

text \<open>\<open>n.toString(16)\<close>\<close>

fun toHex :: "nat \<Rightarrow> jsstring" where
  "toHex n = (if n < 16 then [hexDigit n] else toHex (n div 16) @ [hexDigit (n mod 16)])"

declare toHex.simps [simp del]

text \<open>
  What the code takes from outside its own text: the escape table read from
  \<open>unicode.tsv\<close> (keys are four hexadecimal digits), the parser of the
  \<open>bibtex-parse\<close> package, and the built-ins of the JavaScript engine that depend
  on Unicode data or on the locale. \<open>localeCompare\<close> orders strings by a collation,
  which is a total preorder: a value of type \<open>comparator\<close>.
\<close>

datatype valueKind = Braced | Quoted | Bare | Concatinate

record field =
  f_name :: jsstring
  f_value :: jsstring
  f_raw :: jsstring
  f_datatype :: valueKind

record valueString =
  v_value :: jsstring
  v_datatype :: valueKind

text \<open>
  A JavaScript \<open>Map\<close> iterates in insertion order: an association list with distinct
  keys. \<open>set\<close> on a key that is present keeps its place.
\<close>

type_synonym ('k, 'v) jsmap = "('k \<times> 'v) list"

definition mapGet :: "('k, 'v) jsmap \<Rightarrow> 'k \<Rightarrow> 'v option" where
  "mapGet m k = map_of m k"

definition mapHas :: "('k, 'v) jsmap \<Rightarrow> 'k \<Rightarrow> bool" where
  "mapHas m k \<longleftrightarrow> k \<in> fst ` set m"

fun mapSet :: "('k, 'v) jsmap \<Rightarrow> 'k \<Rightarrow> 'v \<Rightarrow> ('k, 'v) jsmap" where
  "mapSet [] k v = [(k, v)]"
| "mapSet ((k', v') # m) k v = (if k' = k then (k, v) # m else (k', v') # mapSet m k v)"

type_synonym fieldMap = "(jsstring, valueString) jsmap"

text \<open>
  Modelled from the spec: the item types that the parsing library declares (an item is a
  string definition, a preamble, a comment or an entry; an entry has a type, an optional
  key and an ordered list of raw fields). \<open>fieldMap\<close> and \<open>duplicate\<close> are the two
  properties that \<open>tidy\<close> adds to an entry; \<open>None\<close> is an absent \<open>fieldMap\<close>.
\<close>

record entry =
  e_type :: jsstring
  e_key :: "jsstring option"
  e_fields :: "field list"
  e_fieldMap :: "fieldMap option"
  e_duplicate :: bool

datatype item =
    StringItem jsstring jsstring
  | PreambleItem jsstring
  | CommentItem jsstring
  | EntryItem entry

record env =
  specialCharacters :: "jsstring \<rightharpoonup> jsstring"
  parse :: "jsstring \<Rightarrow> item list"
  collation :: "jsstring comparator"
  toLowerCase :: "jsstring \<Rightarrow> jsstring"
  toLocaleLowerCase :: "jsstring \<Rightarrow> jsstring"
  toLocaleUpperCase :: "jsstring \<Rightarrow> jsstring"

definition localeCompare :: "env \<Rightarrow> jsstring \<Rightarrow> jsstring \<Rightarrow> int" where
  "localeCompare E a b =
     (case compare (collation E) a b of Less \<Rightarrow> - 1 | Equiv \<Rightarrow> 0 | Greater \<Rightarrow> 1)"

section \<open>Options\<close>

datatype UniqueKey = Doi | Key | Abstract | Citation

datatype MergeStrategy = First | Last | Combine | Overwrite

datatype 'a boolOrList = Bool bool | List "'a list"

datatype alignOpt = AlignFalse | AlignNum int

datatype spaceOpt = SpaceTrue | SpaceNum nat

record options =
  o_omit :: "jsstring list"
  o_curly :: bool
  o_numeric :: bool
  o_space :: spaceOpt
  o_tab :: bool
  o_align :: alignOpt
  o_sort :: "jsstring boolOrList"
  o_merge :: "UniqueKey boolOrList"
  o_mergeStrategy :: MergeStrategy
  o_stripEnclosingBraces :: bool
  o_dropAllCaps :: bool
  o_escape :: bool
  o_sortFields :: "jsstring boolOrList"
  o_sortProperties :: "jsstring boolOrList option"
  o_stripComments :: bool
  o_encodeUrls :: bool
  o_tidyComments :: bool

text \<open>The defaults of the destructured parameter of \<open>tidy\<close>.\<close>

definition defaultOptions :: options where
  "defaultOptions =
     \<lparr> o_omit = [], o_curly = False, o_numeric = False, o_space = SpaceNum 2, o_tab = False,
       o_align = AlignNum 14, o_sort = Bool False, o_merge = Bool False,
       o_mergeStrategy = Combine, o_stripEnclosingBraces = False, o_dropAllCaps = False,
       o_escape = True, o_sortFields = Bool False, o_sortProperties = None,
       o_stripComments = False, o_encodeUrls = False, o_tidyComments = True \<rparr>"

definition DEFAULT_ENTRY_ORDER :: "jsstring list" where
  "DEFAULT_ENTRY_ORDER = [js ''key'']"

definition DEFAULT_INDEX_STRATEGY :: "UniqueKey list" where
  "DEFAULT_INDEX_STRATEGY = [Doi, Citation, Abstract]"

definition DEFAULT_FIELD_ORDER :: "jsstring list" where
  "DEFAULT_FIELD_ORDER = map js
     [''title'', ''shorttitle'', ''author'', ''year'', ''month'', ''day'', ''journal'',
      ''booktitle'', ''location'', ''on'', ''publisher'', ''address'', ''series'',
      ''volume'', ''number'', ''pages'', ''doi'', ''isbn'', ''issn'', ''url'',
      ''urldate'', ''copyright'', ''category'', ''note'', ''metadata'']"

definition MONTHS :: "jsstring list" where
  "MONTHS = map js
     [''jan'', ''feb'', ''mar'', ''apr'', ''may'', ''jun'',
      ''jul'', ''aug'', ''sep'', ''oct'', ''nov'', ''dec'']"

text \<open>
  Lines 218 to 224: the options after \<open>true\<close> has been replaced by the default lists.
  \<open>None\<close> is a value that is false in a condition.
\<close>

definition sortOpt :: "options \<Rightarrow> jsstring list option" where
  "sortOpt opts =
     (case o_sort opts of
        Bool True \<Rightarrow> Some DEFAULT_ENTRY_ORDER
      | Bool False \<Rightarrow> None
      | List ks \<Rightarrow> Some ks)"

definition spaceOpt :: "options \<Rightarrow> nat" where
  "spaceOpt opts = (case o_space opts of SpaceTrue \<Rightarrow> 2 | SpaceNum n \<Rightarrow> n)"

definition sortFieldsOpt :: "options \<Rightarrow> jsstring list" where
  "sortFieldsOpt opts =
     (let sortFields =
            (case o_sortProperties opts of
               Some (Bool True) \<Rightarrow> Bool True
             | Some (List l) \<Rightarrow> List l
             | _ \<Rightarrow> o_sortFields opts)
      in case sortFields of
           Bool True \<Rightarrow> DEFAULT_FIELD_ORDER
         | Bool False \<Rightarrow> []
         | List l \<Rightarrow> l)"

definition mergeOpt :: "options \<Rightarrow> UniqueKey list option" where
  "mergeOpt opts =
     (case o_merge opts of
        Bool True \<Rightarrow> Some DEFAULT_INDEX_STRATEGY
      | Bool False \<Rightarrow> None
      | List ks \<Rightarrow> Some ks)"

definition alignOpt :: "options \<Rightarrow> int" where
  "alignOpt opts = (case o_align opts of AlignFalse \<Rightarrow> 1 | AlignNum n \<Rightarrow> n)"

definition indent :: "options \<Rightarrow> jsstring" where
  "indent opts = (if o_tab opts then [9] else replicate (spaceOpt opts) 32)"

text \<open>Lines 225 to 235: the criteria to check, in the iteration order of the \<open>Map\<close>.\<close>

definition uniqCheck :: "options \<Rightarrow> (UniqueKey, bool) jsmap" where
  "uniqCheck opts =
     (let m = (case mergeOpt opts of
                 None \<Rightarrow> []
               | Some ks \<Rightarrow> foldl (\<lambda>m key. mapSet m key True) [] ks)
      in if \<not> mapHas m Key then mapSet m Key False else m)"

section \<open>Character escaper\<close>

text \<open>Lines 157 to 176. The loop carries \<open>escapeMode\<close> and \<open>newstr\<close>.\<close>

definition escapeChar :: "env \<Rightarrow> nat \<Rightarrow> jsstring" where
  "escapeChar E ch =
     (case specialCharacters E (padStart 4 48 (toHex ch)) of
        None \<Rightarrow> [ch]
      | Some v \<Rightarrow> if v = [] then [ch] else v)"

fun escapeLoop :: "env \<Rightarrow> jsstring \<Rightarrow> bool \<Rightarrow> jsstring \<Rightarrow> jsstring" where
  "escapeLoop E [] escapeMode newstr = newstr"
| "escapeLoop E (ch # str) escapeMode newstr =
     (if escapeMode then escapeLoop E str False (newstr @ [ch])
      else if ch = 92 then escapeLoop E str True (newstr @ [ch])
      else escapeLoop E str escapeMode (newstr @ escapeChar E ch))"

definition escapeSpecialCharacters :: "env \<Rightarrow> jsstring \<Rightarrow> jsstring" where
  "escapeSpecialCharacters E str = escapeLoop E str False []"

section \<open>Field normalizer\<close>

text \<open>
  \<open>.replace(/\s*\n\s*/g, ' ')\<close>: the leftmost match at a position is the whole run of
  whitespace that starts there, when that run holds a newline; no match starts inside a
  run that holds none.
\<close>

function collapseNewlines :: "jsstring \<Rightarrow> jsstring" where
  "collapseNewlines [] = []"
| "collapseNewlines (c # s) =
     (if isSpace c \<and> 10 \<in> set (takeWhile isSpace (c # s))
      then 32 # collapseNewlines (dropWhile isSpace s)
      else c # collapseNewlines s)"
  by pat_completeness auto
termination
  by (relation "measure length") (auto simp: le_imp_less_Suc length_dropWhile_le)

text \<open>\<open>.replace(/^\{([^{}]*)\}$/g, '$1')\<close>\<close>

definition stripBraces :: "jsstring \<Rightarrow> jsstring" where
  "stripBraces val =
     (case val of
        [] \<Rightarrow> val
      | c # s \<Rightarrow>
          if c = 123 \<and> s \<noteq> [] \<and> last s = 125
             \<and> list_all (\<lambda>x. x \<noteq> 123 \<and> x \<noteq> 125) (butlast s)
          then butlast s else val)"

text \<open>\<open>val.match(/^[^a-z]+$/)\<close>\<close>

definition isAllCaps :: "jsstring \<Rightarrow> bool" where
  "isAllCaps val \<longleftrightarrow> val \<noteq> [] \<and> list_all (\<lambda>c. c < 97 \<or> 122 < c) val"

text \<open>Lines 178 to 182: \<open>/(\w)(\S*)/g\<close>, the first word character and the rest of the word.\<close>

function titleCase :: "env \<Rightarrow> jsstring \<Rightarrow> jsstring" where
  "titleCase E [] = []"
| "titleCase E (c # s) =
     (if isWord c
      then toLocaleUpperCase E [c]
           @ toLocaleLowerCase E (takeWhile (\<lambda>x. \<not> isSpace x) s)
           @ titleCase E (dropWhile (\<lambda>x. \<not> isSpace x) s)
      else c # titleCase E s)"
  by pat_completeness auto
termination
  by (relation "measure (\<lambda>(E, s). length s)") (auto simp: le_imp_less_Suc length_dropWhile_le)

text \<open>\<open>.replace(/\\?_/g, '\\%5F')\<close>\<close>

fun encodeUnderscores :: "jsstring \<Rightarrow> jsstring" where
  "encodeUnderscores [] = []"
| "encodeUnderscores [c] = (if c = 95 then [92, 37, 53, 70] else [c])"
| "encodeUnderscores (c # d # s) =
     (if c = 92 \<and> d = 95 then [92, 37, 53, 70] @ encodeUnderscores s
      else if c = 95 then [92, 37, 53, 70] @ encodeUnderscores (d # s)
      else c # encodeUnderscores (d # s))"

text \<open>
  \<open>.replace(/(\d)\s*-\s*(\d)/g, '$1--$2')\<close>. \<open>pageDashMatch\<close> matches what follows the
  first digit and returns the second digit with the number of units matched; the search
  goes on after the second digit.
\<close>

definition pageDashMatch :: "jsstring \<Rightarrow> (nat \<times> nat) option" where
  "pageDashMatch s =
     (case dropWhile isSpace s of
        [] \<Rightarrow> None
      | c # s1 \<Rightarrow>
          if c \<noteq> 45 then None
          else (case dropWhile isSpace s1 of
                  [] \<Rightarrow> None
                | d # s2 \<Rightarrow>
                    if isDigit d
                    then Some (d, length (takeWhile isSpace s) + 1
                                  + length (takeWhile isSpace s1) + 1)
                    else None))"

function doubleDashPages :: "jsstring \<Rightarrow> jsstring" where
  "doubleDashPages [] = []"
| "doubleDashPages (c # s) =
     (if isDigit c
      then (case pageDashMatch s of
              Some (d, n) \<Rightarrow> [c, 45, 45, d] @ doubleDashPages (drop n s)
            | None \<Rightarrow> c # doubleDashPages s)
      else c # doubleDashPages s)"
  by pat_completeness auto
termination
  by (relation "measure length") auto

text \<open>Lines 268 to 285: the value of one field, before the final \<open>trim\<close>.\<close>

definition normalizeValue :: "options \<Rightarrow> env \<Rightarrow> jsstring \<Rightarrow> field \<Rightarrow> jsstring" where
  "normalizeValue opts E lname fld =
     (if f_datatype fld = Concatinate then f_raw fld
      else
        let val = trim (collapseNewlines (f_value fld));
            val = (if o_stripEnclosingBraces opts then stripBraces val else val);
            val = (if o_dropAllCaps opts \<and> isAllCaps val then titleCase E val else val);
            val = (if lname = js ''url'' \<and> o_encodeUrls opts
                   then encodeUnderscores val else val);
            val = (if o_escape opts then escapeSpecialCharacters E val else val);
            val = (if lname = js ''pages'' then doubleDashPages val else val)
        in val)"

text \<open>Lines 264 to 290: the loop over the raw fields of an entry.\<close>

fun buildFieldMap :: "options \<Rightarrow> env \<Rightarrow> field list \<Rightarrow> fieldMap \<Rightarrow> fieldMap" where
  "buildFieldMap opts E [] fm = fm"
| "buildFieldMap opts E (fld # flds) fm =
     (let lname = toLocaleLowerCase E (f_name fld) in
      if lname \<in> set (o_omit opts) \<or> mapHas fm lname
      then buildFieldMap opts E flds fm
      else buildFieldMap opts E flds
             (mapSet fm lname
                \<lparr> v_value = trim (normalizeValue opts E lname fld),
                  v_datatype = f_datatype fld \<rparr>))"

section \<open>Duplicate index and merge resolver\<close>

text \<open>
  The items are objects that the loops change in place and that the indexes, the warnings
  and the result refer to. The array that the parser returns is the store: an item is
  addressed by its position there, and later orders of the array are lists of addresses.
\<close>

datatype warning =
    DUPLICATE_KEY jsstring nat
  | MISSING_KEY jsstring nat
  | DUPLICATE_ENTRY jsstring nat nat

record state =
  s_items :: "item list"
  s_keys :: "jsstring \<rightharpoonup> nat"
  s_dois :: "jsstring \<rightharpoonup> nat"
  s_citations :: "jsstring \<rightharpoonup> nat"
  s_abstracts :: "jsstring \<rightharpoonup> nat"
  s_warnings :: "warning list"

text \<open>A string that may be \<open>undefined\<close>, inside a template or a concatenation.\<close>

definition toStr :: "jsstring option \<Rightarrow> jsstring" where
  "toStr s = (case s of None \<Rightarrow> js ''undefined'' | Some v \<Rightarrow> v)"

text \<open>
  The key of an entry inside a template. The parser gives \<open>null\<close> for a key that is
  absent: \<open>None\<close> is \<open>null\<close> in the field \<open>e_key\<close>.
\<close>

definition keyStr :: "jsstring option \<Rightarrow> jsstring" where
  "keyStr k = (case k of None \<Rightarrow> js ''null'' | Some v \<Rightarrow> v)"

text \<open>Lines 185 to 190.\<close>

definition alphaNum :: "env \<Rightarrow> jsstring option \<Rightarrow> jsstring option" where
  "alphaNum E str =
     (case str of
        None \<Rightarrow> None
      | Some s \<Rightarrow> Some (toLocaleLowerCase E (filter isAlphaNum s)))"

text \<open>\<open>aut.split(/,| and/)[0]\<close>\<close>

fun splitFirst :: "jsstring \<Rightarrow> jsstring" where
  "splitFirst [] = []"
| "splitFirst (c # s) =
     (if c = 44 \<or> startsWith (c # s) (js '' and'') then [] else c # splitFirst s)"

definition fieldValue :: "entry \<Rightarrow> jsstring \<Rightarrow> jsstring option" where
  "fieldValue e k =
     (case e_fieldMap e of
        None \<Rightarrow> None
      | Some fm \<Rightarrow> map_option v_value (mapGet fm k))"

text \<open>
  The \<open>switch\<close> of lines 294 to 324, up to the lookup: the signature of the entry under
  one criterion, \<open>None\<close> where the code says \<open>continue\<close>.
\<close>

definition signature :: "env \<Rightarrow> UniqueKey \<Rightarrow> entry \<Rightarrow> jsstring option" where
  "signature E crit item =
     (case crit of
        Key \<Rightarrow>
          (case e_key item of
             None \<Rightarrow> None
           | Some k \<Rightarrow> if k = [] then None else Some k)
      | Doi \<Rightarrow>
          (case alphaNum E (fieldValue item (js ''doi'')) of
             None \<Rightarrow> None
           | Some doi \<Rightarrow> if doi = [] then None else Some doi)
      | Citation \<Rightarrow>
          (case (fieldValue item (js ''title''), fieldValue item (js ''author'')) of
             (Some ttl, Some aut) \<Rightarrow>
               if ttl = [] \<or> aut = [] then None
               else Some (toStr (alphaNum E (Some (splitFirst aut))) @ [58]
                          @ toStr (map_option (take 50) (alphaNum E (Some ttl))))
           | _ \<Rightarrow> None)
      | Abstract \<Rightarrow>
          (case map_option (take 100) (alphaNum E (fieldValue item (js ''abstract''))) of
             None \<Rightarrow> None
           | Some abstr \<Rightarrow> if abstr = [] then None else Some abstr))"

definition lookupIndex :: "UniqueKey \<Rightarrow> state \<Rightarrow> jsstring \<Rightarrow> nat option" where
  "lookupIndex crit st sig =
     (case crit of
        Key \<Rightarrow> s_keys st sig
      | Doi \<Rightarrow> s_dois st sig
      | Citation \<Rightarrow> s_citations st sig
      | Abstract \<Rightarrow> s_abstracts st sig)"

definition register :: "UniqueKey \<Rightarrow> jsstring \<Rightarrow> nat \<Rightarrow> state \<Rightarrow> state" where
  "register crit sig i st =
     (case crit of
        Key \<Rightarrow> st\<lparr>s_keys := (s_keys st)(sig \<mapsto> i)\<rparr>
      | Doi \<Rightarrow> st\<lparr>s_dois := (s_dois st)(sig \<mapsto> i)\<rparr>
      | Citation \<Rightarrow> st\<lparr>s_citations := (s_citations st)(sig \<mapsto> i)\<rparr>
      | Abstract \<Rightarrow> st\<lparr>s_abstracts := (s_abstracts st)(sig \<mapsto> i)\<rparr>)"

text \<open>
  Lines 334 to 346: what the merge strategy does to the kept entry \<open>duplicateOf\<close>, given
  the absorbed entry \<open>item\<close>. Both maps are present when the code gets here (line 264
  gives every entry its map before the entry is looked up or registered, see
  \<open>indexedWithMaps_prefix\<close> below); the model leaves the kept entry as it is otherwise.
\<close>

definition mergeEntry :: "MergeStrategy \<Rightarrow> entry \<Rightarrow> entry \<Rightarrow> entry" where
  "mergeEntry mergeStrategy duplicateOf item =
     (case (e_fieldMap duplicateOf, e_fieldMap item) of
        (Some keptMap, Some itemMap) \<Rightarrow>
          (case mergeStrategy of
             First \<Rightarrow> duplicateOf
           | Last \<Rightarrow> duplicateOf\<lparr>e_fields := e_fields item\<rparr>
           | Combine \<Rightarrow>
               duplicateOf\<lparr>e_fieldMap :=
                 Some (foldl (\<lambda>m (k, v). if \<not> mapHas m k then mapSet m k v else m)
                         keptMap itemMap)\<rparr>
           | Overwrite \<Rightarrow>
               duplicateOf\<lparr>e_fieldMap :=
                 Some (foldl (\<lambda>m (k, v). mapSet m k v) keptMap itemMap)\<rparr>)
      | _ \<Rightarrow> duplicateOf)"

text \<open>Lines 326 to 346: the entry at \<open>i\<close> is a duplicate of the entry at \<open>j\<close>.\<close>

definition mergeDuplicate :: "options \<Rightarrow> nat \<Rightarrow> entry \<Rightarrow> nat \<Rightarrow> state \<Rightarrow> state" where
  "mergeDuplicate opts i item j st =
     (case s_items st ! j of
        EntryItem duplicateOf \<Rightarrow>
          st\<lparr>s_items := (s_items st)
                [i := EntryItem (item\<lparr>e_duplicate := True\<rparr>),
                 j := EntryItem (mergeEntry (o_mergeStrategy opts) duplicateOf item)],
             s_warnings := s_warnings st @
                [DUPLICATE_ENTRY
                   (keyStr (e_key item) @ js '' appears to be a duplicate of ''
                    @ keyStr (e_key duplicateOf) @ js '' and was removed.'') i j]\<rparr>
      | _ \<Rightarrow> st)"

text \<open>
  Lines 292 to 355: the loop over \<open>uniqCheck\<close> for the entry \<open>item\<close> at address \<open>i\<close>.
  \<open>continue\<close> is the recursive call, \<open>break\<close> is the return.
\<close>

fun checkCriteria ::
  "options \<Rightarrow> env \<Rightarrow> nat \<Rightarrow> entry \<Rightarrow> (UniqueKey \<times> bool) list \<Rightarrow> state \<Rightarrow> state" where
  "checkCriteria opts E i item [] st = st"
| "checkCriteria opts E i item ((crit, merge) # rest) st =
     (case signature E crit item of
        None \<Rightarrow> checkCriteria opts E i item rest st
      | Some sig \<Rightarrow>
          (case lookupIndex crit st sig of
             None \<Rightarrow> checkCriteria opts E i item rest (register crit sig i st)
           | Some j \<Rightarrow>
               if merge then mergeDuplicate opts i item j st
               else st\<lparr>s_warnings := s_warnings st @
                      [DUPLICATE_KEY
                         (keyStr (e_key item) @ js '' is a duplicate entry key.'') i]\<rparr>))"

definition noKey :: "entry \<Rightarrow> bool" where
  "noKey e \<longleftrightarrow> e_key e = None \<or> e_key e = Some []"

text \<open>Lines 253 to 356: the body of the first loop, for the item at address \<open>i\<close>.\<close>

definition processItem :: "options \<Rightarrow> env \<Rightarrow> state \<Rightarrow> nat \<Rightarrow> state" where
  "processItem opts E st i =
     (case s_items st ! i of
        EntryItem e \<Rightarrow>
          (let st1 = (if noKey e
                      then st\<lparr>s_warnings := s_warnings st @
                             [MISSING_KEY
                                (keyStr (e_key e) @ js '' does not have an entry key.'') i]\<rparr>
                      else st);
               item = e\<lparr>e_fieldMap := Some (buildFieldMap opts E (e_fields e) [])\<rparr>;
               st2 = st1\<lparr>s_items := (s_items st1)[i := EntryItem item]\<rparr>
           in checkCriteria opts E i item (uniqCheck opts) st2)
      | _ \<Rightarrow> st)"

definition initialState :: "item list \<Rightarrow> state" where
  "initialState items =
     \<lparr> s_items = items, s_keys = Map.empty, s_dois = Map.empty,
       s_citations = Map.empty, s_abstracts = Map.empty, s_warnings = [] \<rparr>"

definition indexEntries :: "options \<Rightarrow> env \<Rightarrow> item list \<Rightarrow> state" where
  "indexEntries opts E items =
     foldl (processItem opts E) (initialState items) [0 ..< length items]"

section \<open>Sort planner\<close>

type_synonym SortIndex = "jsstring \<rightharpoonup> jsstring"

definition isDesc :: "jsstring \<Rightarrow> bool" where
  "isDesc k \<longleftrightarrow> startsWith k [45]"

definition stripDash :: "jsstring \<Rightarrow> jsstring" where
  "stripDash k = (if startsWith k [45] then drop 1 k else k)"

text \<open>Lines 370 to 383: the sort index of one entry.\<close>

fun makeSortIndex :: "env \<Rightarrow> entry \<Rightarrow> jsstring list \<Rightarrow> SortIndex \<Rightarrow> SortIndex" where
  "makeSortIndex E item [] sortIndex = sortIndex"
| "makeSortIndex E item (k0 # sortKeys) sortIndex =
     (let k = stripDash k0;
          val = (if k = js ''key'' then (if noKey item then [] else keyStr (e_key item))
                 else if k = js ''type'' then e_type item
                 else (case fieldValue item k of None \<Rightarrow> [] | Some v \<Rightarrow> v))
      in makeSortIndex E item sortKeys (sortIndex(k \<mapsto> toLowerCase E val)))"

text \<open>
  Lines 364 to 389: the loop that gives every entry its sort index and every item
  before it, back to the previous entry, the same index. \<open>preceedingMeta\<close> is emptied
  from its end.
\<close>

fun createSortIndexes ::
  "env \<Rightarrow> item list \<Rightarrow> jsstring list \<Rightarrow> nat list \<Rightarrow> nat list
     \<Rightarrow> (nat \<rightharpoonup> SortIndex) \<Rightarrow> (nat \<rightharpoonup> SortIndex)" where
  "createSortIndexes E items sortKeys [] preceedingMeta sortIndexes = sortIndexes"
| "createSortIndexes E items sortKeys (a # rest) preceedingMeta sortIndexes =
     (case items ! a of
        EntryItem item \<Rightarrow>
          (let sortIndex = makeSortIndex E item sortKeys Map.empty
           in createSortIndexes E items sortKeys rest []
                (foldl (\<lambda>m p. m(p \<mapsto> sortIndex)) (sortIndexes(a \<mapsto> sortIndex))
                   (rev preceedingMeta)))
      | _ \<Rightarrow> createSortIndexes E items sortKeys rest (preceedingMeta @ [a]) sortIndexes)"

text \<open>
  \<open>Array.prototype.sort\<close> with a comparison function is a stable sort: an element is
  moved behind another only if the function says it is greater. For a function that is
  a consistent comparison the stably sorted array is unique, and insertion from the right
  computes it.
\<close>

primrec insertBy :: "('a \<Rightarrow> 'a \<Rightarrow> int) \<Rightarrow> 'a \<Rightarrow> 'a list \<Rightarrow> 'a list" where
  "insertBy cmp y [] = [y]"
| "insertBy cmp y (x # xs) = (if cmp y x \<le> 0 then y # x # xs else x # insertBy cmp y xs)"

definition arraySort :: "('a \<Rightarrow> 'a \<Rightarrow> int) \<Rightarrow> 'a list \<Rightarrow> 'a list" where
  "arraySort cmp xs = foldr (insertBy cmp) xs []"

text \<open>Lines 393 to 399: the comparison function of one sort key; \<open>[65520]\<close> is the string \<open>'\ufff0'\<close>.\<close>

definition sortValue :: "(nat \<rightharpoonup> SortIndex) \<Rightarrow> jsstring \<Rightarrow> nat \<Rightarrow> jsstring" where
  "sortValue sortIndexes k a =
     (case sortIndexes a of
        None \<Rightarrow> [65520]
      | Some sortIndex \<Rightarrow> (case sortIndex k of None \<Rightarrow> [65520] | Some v \<Rightarrow> v))"

definition itemCompare ::
  "env \<Rightarrow> (nat \<rightharpoonup> SortIndex) \<Rightarrow> jsstring \<Rightarrow> nat \<Rightarrow> nat \<Rightarrow> int" where
  "itemCompare E sortIndexes sortKey a b =
     (let desc = isDesc sortKey;
          k = stripDash sortKey;
          ia = sortValue sortIndexes k a;
          ib = sortValue sortIndexes k b
      in localeCompare E (if desc then ib else ia) (if desc then ia else ib))"

text \<open>Lines 392 to 401: the loop counts \<open>i\<close> down; \<open>n\<close> is \<open>i + 1\<close>.\<close>

fun sortLoop ::
  "env \<Rightarrow> (nat \<rightharpoonup> SortIndex) \<Rightarrow> jsstring list \<Rightarrow> nat \<Rightarrow> nat list \<Rightarrow> nat list" where
  "sortLoop E sortIndexes sortKeys 0 items = items"
| "sortLoop E sortIndexes sortKeys (Suc i) items =
     sortLoop E sortIndexes sortKeys i (arraySort (itemCompare E sortIndexes (sortKeys ! i)) items)"

definition sortItems ::
  "env \<Rightarrow> (nat \<rightharpoonup> SortIndex) \<Rightarrow> jsstring list \<Rightarrow> nat list \<Rightarrow> nat list" where
  "sortItems E sortIndexes sortKeys items = sortLoop E sortIndexes sortKeys (length sortKeys) items"

text \<open>
  The single comparison function that the specification sets against the loop: the keys
  in their order of priority, a later key deciding only where all earlier keys tie.
\<close>

fun compositeCompare ::
  "env \<Rightarrow> (nat \<rightharpoonup> SortIndex) \<Rightarrow> jsstring list \<Rightarrow> nat \<Rightarrow> nat \<Rightarrow> int" where
  "compositeCompare E sortIndexes [] a b = 0"
| "compositeCompare E sortIndexes (k # ks) a b =
     (if itemCompare E sortIndexes k a b \<noteq> 0 then itemCompare E sortIndexes k a b
      else compositeCompare E sortIndexes ks a b)"

section \<open>Serializer\<close>

text \<open>\<open>val.match(/^[1-9][0-9]*$/)\<close>\<close>

definition matchesNumber :: "jsstring \<Rightarrow> bool" where
  "matchesNumber val =
     (case val of [] \<Rightarrow> False | c # s \<Rightarrow> 49 \<le> c \<and> c \<le> 57 \<and> list_all isDigit s)"

text \<open>Lines 444 to 456.\<close>

definition renderValue :: "options \<Rightarrow> env \<Rightarrow> jsstring \<Rightarrow> valueString \<Rightarrow> jsstring" where
  "renderValue opts E k fld =
     (let val = v_value fld;
          dig3 = toLowerCase E (take 3 val)
      in if o_numeric opts \<and> matchesNumber val then val
         else if o_numeric opts \<and> k = js ''month'' \<and> dig3 \<in> set MONTHS then dig3
         else if v_datatype fld = Braced \<or> o_curly opts then [123] @ val @ [125]
         else if v_datatype fld = Quoted then [34] @ val @ [34]
         else val)"

text \<open>\<open>new Set(list)\<close>, in insertion order.\<close>

definition newSet :: "'a list \<Rightarrow> 'a list" where
  "newSet xs = foldl (\<lambda>acc x. if x \<in> set acc then acc else acc @ [x]) [] xs"

text \<open>Lines 440 to 457.\<close>

fun renderFields :: "options \<Rightarrow> env \<Rightarrow> fieldMap \<Rightarrow> jsstring list \<Rightarrow> jsstring" where
  "renderFields opts E fm [] = []"
| "renderFields opts E fm (k # ks) =
     (case mapGet fm k of
        None \<Rightarrow> renderFields opts E fm ks
      | Some fld \<Rightarrow>
          [44, 10] @ indent opts @ padEnd (alignOpt opts - 1) k @ js '' = ''
          @ renderValue opts E k fld @ renderFields opts E fm ks)"

text \<open>
  Lines 431 to 458. Every entry that reaches the serializer got its map in the first loop
  (\<open>indexEntries_hasMap\<close> below); the model reads an absent map as an empty one.
\<close>

definition renderEntry :: "options \<Rightarrow> env \<Rightarrow> entry \<Rightarrow> jsstring" where
  "renderEntry opts E item =
     (let fm = (case e_fieldMap item of None \<Rightarrow> [] | Some m \<Rightarrow> m)
      in [64] @ toLowerCase E (e_type item) @ [123]
         @ (if noKey item then [] else keyStr (e_key item))
         @ renderFields opts E fm (newSet (sortFieldsOpt opts @ map fst fm))
         @ [10, 125, 10])"

definition isBlank :: "nat \<Rightarrow> bool" where
  "isBlank c \<longleftrightarrow> c = 32 \<or> c = 9"

text \<open>\<open>.replace(/^[ \t]*\n|[ \t]*$/g, '')\<close>\<close>

definition stripCommentEdges :: "jsstring \<Rightarrow> jsstring" where
  "stripCommentEdges comment =
     (let s = (case dropWhile isBlank comment of
                 [] \<Rightarrow> comment
               | c # r \<Rightarrow> if c = 10 then r else comment)
      in rev (dropWhile isBlank (rev s)))"

text \<open>
  Lines 407 to 461: the body of the output loop for one item: the text it appends and
  the item as the body leaves it.
\<close>

definition serializeItem :: "options \<Rightarrow> env \<Rightarrow> item \<Rightarrow> jsstring \<times> item" where
  "serializeItem opts E it =
     (case it of
        StringItem name raw \<Rightarrow>
          (js ''@string{'' @ name @ js '' = '' @ raw @ [125, 10], it)
      | PreambleItem raw \<Rightarrow>
          (js ''@preamble{'' @ raw @ [125, 10], it)
      | CommentItem comment \<Rightarrow>
          (if o_stripComments opts then []
           else if o_tidyComments opts
                then (if trim comment \<noteq> [] then trim comment @ [10] else [])
                else stripCommentEdges comment, it)
      | EntryItem item \<Rightarrow>
          if e_duplicate item then ([], it)
          else (renderEntry opts E item, EntryItem (item\<lparr>e_fieldMap := None\<rparr>)))"

fun serialize ::
  "options \<Rightarrow> env \<Rightarrow> nat list \<Rightarrow> jsstring \<times> item list \<Rightarrow> jsstring \<times> item list" where
  "serialize opts E [] (bibtex, items) = (bibtex, items)"
| "serialize opts E (a # rest) (bibtex, items) =
     serialize opts E rest
       (bibtex @ fst (serializeItem opts E (items ! a)),
        items[a := snd (serializeItem opts E (items ! a))])"

section \<open>Pipeline\<close>

definition isEntry :: "item \<Rightarrow> bool" where
  "isEntry it = (case it of EntryItem e \<Rightarrow> True | _ \<Rightarrow> False)"

text \<open>
  The result: \<open>r_entries\<close> lists the addresses of the returned entries, in the order of
  the returned array, and \<open>r_items\<close> is the store as \<open>tidy\<close> leaves it.
\<close>

record result =
  r_bibtex :: jsstring
  r_warnings :: "warning list"
  r_entries :: "nat list"
  r_items :: "item list"

text \<open>Lines 359 to 402: the order of the items after the sort.\<close>

definition sortPlan :: "options \<Rightarrow> env \<Rightarrow> item list \<Rightarrow> nat list" where
  "sortPlan opts E items =
     (case sortOpt opts of
        None \<Rightarrow> [0 ..< length items]
      | Some sortKeys \<Rightarrow>
          sortItems E
            (createSortIndexes E items sortKeys [0 ..< length items] [] Map.empty)
            sortKeys [0 ..< length items])"

text \<open>Lines 237 to 470, from the parsed items on.\<close>

definition tidyItems :: "env \<Rightarrow> options \<Rightarrow> item list \<Rightarrow> result" where
  "tidyItems E opts parsed =
     (let st = indexEntries opts E parsed;
          order = sortPlan opts E (s_items st);
          out = serialize opts E order ([], s_items st);
          bibtex = (if \<not> endsWith (fst out) [10] then fst out @ [10] else fst out)
      in \<lparr> r_bibtex = bibtex,
           r_warnings = s_warnings st,
           r_entries = filter (\<lambda>a. isEntry (snd out ! a)) order,
           r_items = snd out \<rparr>)"

definition tidy :: "env \<Rightarrow> jsstring \<Rightarrow> options \<Rightarrow> result" where
  "tidy E input opts = tidyItems E opts (parse E input)"

text \<open>The entries that \<open>tidy\<close> returns, as the caller reads them.\<close>

definition returnedEntries :: "result \<Rightarrow> item list" where
  "returnedEntries r = map (\<lambda>a. r_items r ! a) (r_entries r)"

section \<open>Definitions used to state the properties\<close>

text \<open>The value of \<open>escapeMode\<close> when the loop of the escaper has read \<open>str\<close>.\<close>

fun escapeModeAfter :: "jsstring \<Rightarrow> bool \<Rightarrow> bool" where
  "escapeModeAfter [] escapeMode = escapeMode"
| "escapeModeAfter (ch # str) escapeMode =
     (if escapeMode then escapeModeAfter str False
      else if ch = 92 then escapeModeAfter str True
      else escapeModeAfter str escapeMode)"

text \<open>The normalized field of an entry under a name, \<open>None\<close> where it has none.\<close>

definition normalizedField :: "entry \<Rightarrow> jsstring \<Rightarrow> valueString option" where
  "normalizedField e k = (case e_fieldMap e of None \<Rightarrow> None | Some fm \<Rightarrow> mapGet fm k)"

text \<open>
  Two entries with the same key, after the test \<open>duplicate-merge-keys.spec.ts\<close>: the
  second one has another title and a field \<open>n\<close> that the first one lacks. The parser
  returns the text between two entries, and after the last one, as a comment item: here
  the newline.
\<close>

definition sampleFirst :: entry where
  "sampleFirst =
     \<lparr> e_type = js ''book'', e_key = Some (js ''sweig42''),
       e_fields =
         [\<lparr>f_name = js ''title'', f_value = js ''The impossible book'',
           f_raw = js ''{The impossible book}'', f_datatype = Braced\<rparr>,
          \<lparr>f_name = js ''year'', f_value = js ''1942'', f_raw = js ''1942'',
           f_datatype = Bare\<rparr>],
       e_fieldMap = None, e_duplicate = False \<rparr>"

definition sampleSecond :: entry where
  "sampleSecond =
     \<lparr> e_type = js ''book'', e_key = Some (js ''sweig42''),
       e_fields =
         [\<lparr>f_name = js ''title'', f_value = js ''Foo'', f_raw = js ''{Foo}'',
           f_datatype = Braced\<rparr>,
          \<lparr>f_name = js ''n'', f_value = js ''1'', f_raw = js ''1'', f_datatype = Bare\<rparr>],
       e_fieldMap = None, e_duplicate = False \<rparr>"

definition sampleItems :: "item list" where
  "sampleItems = [EntryItem sampleFirst, CommentItem [10], EntryItem sampleSecond]"

text \<open>
  The text of the two entries, and a text with a page range of three numbers together
  with what the tidied text of it is.
\<close>

definition sampleText :: jsstring where
  "sampleText =
     js ''@book{sweig42, title = {The impossible book}, year = 1942}'' @ [10]
     @ js ''@book{sweig42, title = {Foo}, n = 1}''"

definition pagesEntry :: "jsstring \<Rightarrow> entry" where
  "pagesEntry v =
     \<lparr> e_type = js ''article'', e_key = Some (js ''k''),
       e_fields = [\<lparr>f_name = js ''pages'', f_value = v, f_raw = [123] @ v @ [125],
                    f_datatype = Braced\<rparr>],
       e_fieldMap = None, e_duplicate = False \<rparr>"

definition pagesText :: jsstring where
  "pagesText = js ''@article{k, pages = {1-2-3}}''"

definition pagesTidied :: jsstring where
  "pagesTidied =
     js ''@article{k,'' @ [10] @ js ''  pages         = {1--2-3}'' @ [10, 125, 10]"

text \<open>
  An engine to run the code on concrete inputs: the collation is the order of the code
  units, the case mappings change the ASCII letters only, the table escapes \<open>#\<close> and
  \<open>&\<close>, and the parser is given by what \<open>bibtex-parse\<close> returns for the three texts
  above.
\<close>

definition asciiLower :: "jsstring \<Rightarrow> jsstring" where
  "asciiLower s = map (\<lambda>c. if 65 \<le> c \<and> c \<le> 90 then c + 32 else c) s"

definition asciiUpper :: "jsstring \<Rightarrow> jsstring" where
  "asciiUpper s = map (\<lambda>c. if 97 \<le> c \<and> c \<le> 122 then c - 32 else c) s"

definition sampleEnv :: env where
  "sampleEnv =
     \<lparr> specialCharacters = [js ''0023'' \<mapsto> [92, 35], js ''0026'' \<mapsto> [92, 38]],
       parse = (\<lambda>input.
          if input = sampleText then sampleItems
          else if input = pagesText then [EntryItem (pagesEntry (js ''1-2-3''))]
          else if input = pagesTidied
               then [EntryItem (pagesEntry (js ''1--2-3'')), CommentItem [10]]
          else []),
       collation = default,
       toLowerCase = asciiLower,
       toLocaleLowerCase = asciiLower,
       toLocaleUpperCase = asciiUpper \<rparr>"

text \<open>An entry with the map that the first loop gives it under the default options.\<close>

definition withMap :: "entry \<Rightarrow> entry" where
  "withMap e = e\<lparr>e_fieldMap := Some (buildFieldMap defaultOptions sampleEnv (e_fields e) [])\<rparr>"

text \<open>
  The comparison functions of the sort as comparators: the result of \<open>localeCompare\<close>
  is read by its sign only. \<open>thenBy\<close> lets the second comparator decide where the
  first one ties.
\<close>

definition sign :: "comp \<Rightarrow> int" where
  "sign c = (case c of Less \<Rightarrow> - 1 | Equiv \<Rightarrow> 0 | Greater \<Rightarrow> 1)"

definition keyComparator :: "env \<Rightarrow> (nat \<rightharpoonup> SortIndex) \<Rightarrow> jsstring \<Rightarrow> nat comparator" where
  "keyComparator E sortIndexes sortKey =
     key (sortValue sortIndexes (stripDash sortKey))
       (if isDesc sortKey then reversed (collation E) else collation E)"

definition thenBy :: "'a comparator \<Rightarrow> 'a comparator \<Rightarrow> 'a comparator" where
  "thenBy c1 c2 = key (\<lambda>a. (a, a)) (prod_lex c1 c2)"

fun compositeComparator ::
  "env \<Rightarrow> (nat \<rightharpoonup> SortIndex) \<Rightarrow> jsstring list \<Rightarrow> nat comparator" where
  "compositeComparator E sortIndexes [] = flat"
| "compositeComparator E sortIndexes (k # ks) =
     thenBy (keyComparator E sortIndexes k) (compositeComparator E sortIndexes ks)"

text \<open>Three entries to sort: the second one has no field \<open>year\<close>.\<close>

definition sortSample :: "item list" where
  "sortSample =
     [EntryItem \<lparr> e_type = js ''article'', e_key = Some (js ''b''),
         e_fields = [\<lparr>f_name = js ''year'', f_value = js ''2001'', f_raw = js ''{2001}'',
                      f_datatype = Braced\<rparr>],
         e_fieldMap = None, e_duplicate = False \<rparr>,
      EntryItem \<lparr> e_type = js ''article'', e_key = Some (js ''a''),
         e_fields = [\<lparr>f_name = js ''title'', f_value = js ''T'', f_raw = js ''{T}'',
                      f_datatype = Braced\<rparr>],
         e_fieldMap = None, e_duplicate = False \<rparr>,
      EntryItem \<lparr> e_type = js ''article'', e_key = Some (js ''c''),
         e_fields = [\<lparr>f_name = js ''year'', f_value = js ''1999'', f_raw = js ''{1999}'',
                      f_datatype = Braced\<rparr>],
         e_fieldMap = None, e_duplicate = False \<rparr>]"

definition sortSampleIndexes :: "jsstring list \<Rightarrow> nat \<rightharpoonup> SortIndex" where
  "sortSampleIndexes sortKeys =
     createSortIndexes sampleEnv (s_items (indexEntries defaultOptions sampleEnv sortSample))
       sortKeys [0, 1, 2] [] Map.empty"

text \<open>A title that was wrapped in the source file, with two spaces further on.\<close>

definition wrappedTitle :: field where
  "wrappedTitle =
     \<lparr> f_name = js ''title'', f_value = [32] @ js ''a'' @ [32, 10, 9] @ js ''b  c'',
       f_raw = [123, 32] @ js ''a'' @ [32, 10, 9] @ js ''b  c'' @ [125],
       f_datatype = Braced \<rparr>"

text \<open>An item that is an entry flagged as a dropped duplicate, and an item whose map is present.\<close>

definition dropped :: "item \<Rightarrow> bool" where
  "dropped it = (case it of EntryItem e \<Rightarrow> e_duplicate e | _ \<Rightarrow> False)"

definition hasMap :: "item \<Rightarrow> bool" where
  "hasMap it = (case it of EntryItem e \<Rightarrow> e_fieldMap e \<noteq> None | _ \<Rightarrow> True)"

text \<open>
  Every address that one of the four indexes holds is the address of an entry whose map
  is present.
\<close>

definition indexedWithMaps :: "state \<Rightarrow> bool" where
  "indexedWithMaps st \<longleftrightarrow>
     (\<forall>crit sig j. lookupIndex crit st sig = Some j \<longrightarrow>
        j < length (s_items st) \<and> isEntry (s_items st ! j) \<and> hasMap (s_items st ! j))"

text \<open>The options of the test: merge on equal keys, with the default strategy \<open>combine\<close>.\<close>

definition mergeByKey :: options where
  "mergeByKey = defaultOptions\<lparr>o_merge := List [Key]\<rparr>"

section \<open>The character escaper\<close>

lemma escapeLoop_acc:
  "escapeLoop E str m acc = acc @ escapeLoop E str m []"
proof (induction str arbitrary: m acc)
  case Nil
  show ?case by simp
next
  case (Cons ch str)
  show ?case
    using Cons.IH [of False "acc @ [ch]"] Cons.IH [of True "acc @ [ch]"]
      Cons.IH [of False "[ch]"] Cons.IH [of True "[ch]"]
      Cons.IH [of False "acc @ escapeChar E ch"] Cons.IH [of False "escapeChar E ch"]
    by (cases m) auto
qed

lemma escapeLoop_append:
  "escapeLoop E (pre @ rest) m [] =
     escapeLoop E pre m [] @ escapeLoop E rest (escapeModeAfter pre m) []"
proof (induction pre arbitrary: m)
  case Nil
  show ?case by simp
next
  case (Cons ch pre)
  show ?case
    using Cons.IH [of False] Cons.IH [of True] Cons.IH [of m]
      escapeLoop_acc [of E "pre @ rest" _ "[ch]"]
      escapeLoop_acc [of E "pre @ rest" _ "escapeChar E ch"]
      escapeLoop_acc [of E "pre" _ "[ch]"]
      escapeLoop_acc [of E "pre" _ "escapeChar E ch"]
    by (cases m) auto
qed

lemma hex_0023: "padStart 4 48 (toHex 35) = js ''0023''"
  by code_simp

text \<open>
  C8, as amended: wherever the escaper reads a backslash outside an escape sequence (the
  text \<open>pre\<close> before it does not end in the middle of one), the character \<open>c\<close>
  after the backslash is copied as it is, whatever the table says about it, and the
  escaper goes on with the rest of the text as from a fresh start: the skip lasts exactly
  one character. With \<open>c = &\<close> this is the sequence \<open>\&\<close>, which is left as it
  is. A \<open>#\<close> outside an escape sequence is replaced by \<open>\#\<close> when the table maps
  it so.
\<close>

theorem escape_passes_escaped_character:
  "\<not> escapeModeAfter pre False \<Longrightarrow>
     escapeSpecialCharacters E (pre @ 92 # c # rest)
       = escapeSpecialCharacters E pre @ 92 # c # escapeSpecialCharacters E rest
     \<and> (specialCharacters E (js ''0023'') = Some [92, 35] \<longrightarrow>
          escapeSpecialCharacters E (pre @ 35 # rest)
            = escapeSpecialCharacters E pre @ [92, 35] @ escapeSpecialCharacters E rest)"
proof -
  assume p: "\<not> escapeModeAfter pre False"
  have a: "escapeLoop E (92 # c # rest) False [] = 92 # c # escapeLoop E rest False []"
    using escapeLoop_acc [of E rest False "[92, c]"] by simp
  have b: "escapeLoop E (35 # rest) False [] = [92, 35] @ escapeLoop E rest False []"
    if t: "specialCharacters E (js ''0023'') = Some [92, 35]"
    using escapeLoop_acc [of E rest False "[92, 35]"] t
    by (simp add: escapeChar_def hex_0023)
  show ?thesis
    using p a b by (simp add: escapeSpecialCharacters_def escapeLoop_append)
qed

theorem escape_passes_escaped_character_witness:
  "\<not> escapeModeAfter [97] False
   \<and> specialCharacters sampleEnv (js ''0023'') = Some [92, 35]
   \<and> escapeSpecialCharacters sampleEnv ([97] @ 92 # 38 # [35])
       = escapeSpecialCharacters sampleEnv [97] @ 92 # 38 # escapeSpecialCharacters sampleEnv [35]
   \<and> escapeSpecialCharacters sampleEnv ([97] @ 35 # [38])
       = escapeSpecialCharacters sampleEnv [97] @ [92, 35] @ escapeSpecialCharacters sampleEnv [38]
   \<and> escapeSpecialCharacters sampleEnv [97, 92, 38, 35] = [97, 92, 38, 92, 35]"
proof -
  have p: "\<not> escapeModeAfter [97] False" by simp
  have t: "specialCharacters sampleEnv (js ''0023'') = Some [92, 35]"
    by (simp add: sampleEnv_def js_def)
  have e: "escapeSpecialCharacters sampleEnv [97, 92, 38, 35] = [97, 92, 38, 92, 35]"
    by code_simp
  show ?thesis
    using escape_passes_escaped_character [OF p, of sampleEnv 38 "[35]"]
      escape_passes_escaped_character [OF p, of sampleEnv 38 "[38]"] p t e
    by blast
qed

text \<open>
  C8, as stated, fails: not every character that follows a backslash is copied as it is.
  In the text of two backslashes and \<open>&\<close> the second backslash is the escaped
  character, the skip ends with it, and the \<open>&\<close> after it is replaced from the table.
\<close>

theorem character_after_escaped_backslash_is_escaped:
  "escapeSpecialCharacters sampleEnv [92, 92, 38] = [92, 92, 92, 38]"
  by code_simp

section \<open>Evaluation on concrete inputs\<close>

lemma replicate_numeral: "replicate (numeral k) x = x # replicate (pred_numeral k) x"
  by (simp add: numeral_eq_Suc)

lemmas str_defs = js_def isSpace_def isDigit_def isAlphaNum_def isWord_def trim_def
  startsWith_def endsWith_def padStart_def padEnd_def hexDigit_def toHex.simps toStr_def keyStr_def
  replicate_numeral
lemmas env_defs = sampleEnv_def asciiLower_def asciiUpper_def localeCompare_def
  default_comparator.rep_eq
lemmas opt_defs = defaultOptions_def sortOpt_def spaceOpt_def sortFieldsOpt_def mergeOpt_def
  alignOpt_def indent_def uniqCheck_def mapGet_def mapHas_def
lemmas norm_defs = escapeChar_def escapeSpecialCharacters_def stripBraces_def isAllCaps_def
  pageDashMatch_def normalizeValue_def Let_def
lemmas index_defs = alphaNum_def fieldValue_def signature_def lookupIndex_def register_def
  mergeEntry_def mergeDuplicate_def noKey_def processItem_def initialState_def
  indexEntries_def

lemma sample_map1: "buildFieldMap defaultOptions sampleEnv (e_fields sampleFirst) [] =
   [(js ''title'', \<lparr>v_value = js ''The impossible book'', v_datatype = Braced\<rparr>),
         (js ''year'', \<lparr>v_value = js ''1942'', v_datatype = Bare\<rparr>)]"
  by (simp add: sampleFirst_def str_defs env_defs opt_defs norm_defs)

lemma sample_map2: "buildFieldMap defaultOptions sampleEnv (e_fields sampleSecond) [] =
   [(js ''title'', \<lparr>v_value = js ''Foo'', v_datatype = Braced\<rparr>),
         (js ''n'', \<lparr>v_value = js ''1'', v_datatype = Bare\<rparr>)]"
  by (simp add: sampleSecond_def str_defs env_defs opt_defs norm_defs)

lemma sample_state:
  "s_items (indexEntries defaultOptions sampleEnv sampleItems)
     = [EntryItem (withMap sampleFirst), CommentItem [10], EntryItem (withMap sampleSecond)]"
  by (simp add: sampleItems_def withMap_def sampleFirst_def sampleSecond_def str_defs env_defs opt_defs norm_defs index_defs)

section \<open>Maps in insertion order\<close>

lemma map_of_mapSet: "map_of (mapSet m k v) = (map_of m)(k \<mapsto> v)"
  by (induction m) (auto simp: fun_eq_iff)

lemma mapHas_map_of: "mapHas m k \<longleftrightarrow> map_of m k \<noteq> None"
  by (simp add: mapHas_def map_of_eq_None_iff)

lemma mapSet_fresh: "k \<notin> fst ` set m \<Longrightarrow> mapSet m k v = m @ [(k, v)]"
  by (induction m) auto

lemma mapSet_flags:
  "mapSet (map (\<lambda>k. (k, True)) acc) k True
     = map (\<lambda>k. (k, True)) (if k \<in> set acc then acc else acc @ [k])"
  by (induction acc) auto

lemma foldl_mapSet_flags:
  "foldl (\<lambda>m k. mapSet m k True) (map (\<lambda>k. (k, True)) acc) ks
     = map (\<lambda>k. (k, True)) (foldl (\<lambda>acc x. if x \<in> set acc then acc else acc @ [x]) acc ks)"
proof (induction ks arbitrary: acc)
  case Nil
  show ?case by simp
next
  case (Cons k ks)
  show ?case
    using Cons.IH [of "if k \<in> set acc then acc else acc @ [k]"]
    by (simp only: foldl_Cons mapSet_flags)
qed

lemma set_foldl_add:
  "set (foldl (\<lambda>acc x. if x \<in> set acc then acc else acc @ [x]) acc xs) = set acc \<union> set xs"
  by (induction xs arbitrary: acc) auto

lemma set_newSet: "set (newSet xs) = set xs"
  by (simp add: newSet_def set_foldl_add)

section \<open>Order of the duplicate criteria\<close>

text \<open>
  C2, as amended: the criteria are iterated in a fixed order, which is the order in which
  the \<open>Map\<close> received them: the requested criteria in their configured order, each
  once and flagged for merging, and then \<open>key\<close>, flagged as warning only, when it was
  not among them. When \<open>key\<close> is requested it stands where it was configured.
\<close>

theorem uniqCheck_order:
  "uniqCheck opts =
     (case mergeOpt opts of
        None \<Rightarrow> [(Key, False)]
      | Some ks \<Rightarrow>
          map (\<lambda>k. (k, True)) (newSet ks) @ (if Key \<in> set ks then [] else [(Key, False)]))"
proof (cases "mergeOpt opts")
  case None
  then show ?thesis by (simp add: uniqCheck_def mapHas_def)
next
  case (Some ks)
  have m: "foldl (\<lambda>m k. mapSet m k True) [] ks = map (\<lambda>k. (k, True)) (newSet ks)"
    using foldl_mapSet_flags [of "[]" ks] by (simp add: newSet_def)
  have h: "mapHas (map (\<lambda>k. (k, True)) (newSet ks)) Key \<longleftrightarrow> Key \<in> set ks"
    by (simp add: mapHas_def image_image set_newSet)
  show ?thesis
  proof (cases "Key \<in> set ks")
    case True
    with Some m h show ?thesis by (simp add: uniqCheck_def)
  next
    case False
    then have "Key \<notin> fst ` set (map (\<lambda>k. (k, True)) (newSet ks))"
      by (simp add: image_image set_newSet)
    then have "mapSet (map (\<lambda>k. (k, True)) (newSet ks)) Key False
                 = map (\<lambda>k. (k, True)) (newSet ks) @ [(Key, False)]"
      by (rule mapSet_fresh)
    with Some m h False show ?thesis by (simp add: uniqCheck_def)
  qed
qed

theorem uniqCheck_order_witness:
  "uniqCheck (defaultOptions\<lparr>o_merge := List [Doi, Abstract, Doi]\<rparr>)
     = [(Doi, True), (Abstract, True), (Key, False)]"
  using uniqCheck_order [of "defaultOptions\<lparr>o_merge := List [Doi, Abstract, Doi]\<rparr>"]
  by (simp add: mergeOpt_def defaultOptions_def newSet_def)

text \<open>
  C2, as stated, fails: with \<open>merge: ['doi']\<close> the criterion \<open>doi\<close> is checked
  first and \<open>key\<close> after it.
\<close>

theorem key_checked_after_requested_criteria:
  "map fst (uniqCheck (defaultOptions\<lparr>o_merge := List [Doi]\<rparr>)) = [Doi, Key]"
  by code_simp

section \<open>Merge strategies\<close>

lemma combine_lookup:
  "map_of (foldl (\<lambda>m (k, v). if \<not> mapHas m k then mapSet m k v else m) km am) k
     = (case map_of km k of Some v \<Rightarrow> Some v | None \<Rightarrow> map_of am k)"
proof (induction am arbitrary: km)
  case Nil
  show ?case by (simp split: option.split)
next
  case (Cons p am)
  obtain k' v' where p: "p = (k', v')" by (cases p)
  show ?case
    using Cons.IH [of "if \<not> mapHas km k' then mapSet km k' v' else km"]
    by (auto simp: p mapHas_map_of map_of_mapSet split: option.splits)
qed

lemma overwrite_lookup:
  "distinct (map fst am) \<Longrightarrow>
   map_of (foldl (\<lambda>m (k, v). mapSet m k v) km am) k
     = (case map_of am k of Some v \<Rightarrow> Some v | None \<Rightarrow> map_of km k)"
proof (induction am arbitrary: km)
  case Nil
  show ?case by simp
next
  case (Cons p am)
  obtain k' v' where p: "p = (k', v')" by (cases p)
  from Cons.prems have d: "distinct (map fst am)" and n: "k' \<notin> fst ` set am"
    by (auto simp: p)
  from n have "map_of am k' = None" by (simp add: map_of_eq_None_iff)
  then show ?case
    using Cons.IH [OF d, of "mapSet km k' v'"]
    by (auto simp: p map_of_mapSet split: option.splits)
qed

lemma combine_prefix:
  "\<exists>added. foldl (\<lambda>m (k, v). if \<not> mapHas m k then mapSet m k v else m) km am = km @ added"
proof (induction am arbitrary: km)
  case Nil
  show ?case by simp
next
  case (Cons p am)
  obtain k' v' where p: "p = (k', v')" by (cases p)
  show ?case
  proof (cases "mapHas km k'")
    case True
    then show ?thesis using Cons.IH [of km] by (simp add: p)
  next
    case False
    then have "mapSet km k' v' = km @ [(k', v')]"
      by (simp add: mapHas_def mapSet_fresh)
    then show ?thesis using Cons.IH [of "km @ [(k', v')]"] False by (auto simp: p)
  qed
qed

text \<open>
  The merge resolver, for every pair: the entry at \<open>i\<close> is absorbed into the kept entry
  at \<open>j\<close>, and the kept entry becomes \<open>mergeEntry\<close> of the two. Under
  \<open>combine\<close> every name that the kept entry has keeps its field and every other name
  gets the field of the absorbed entry, the map of the kept entry staying a prefix of the
  new map; under \<open>overwrite\<close> every name that the absorbed entry has gets its field,
  the other names keep theirs; under \<open>first\<close> the kept entry is not changed. These are
  the clauses of the claim on the merge strategies that hold of the code. Under
  \<open>last\<close> the list \<open>fields\<close> of the kept entry becomes that of the absorbed
  entry, and its normalized map stays as it was.
\<close>

theorem merge_strategies:
  assumes "j < length (s_items st)" and "i \<noteq> j" and "s_items st ! j = EntryItem kept"
    and "e_fieldMap kept = Some km" and "e_fieldMap item = Some am"
    and "distinct (map fst am)"
  shows "s_items (mergeDuplicate opts i item j st) ! j
           = EntryItem (mergeEntry (o_mergeStrategy opts) kept item)
    \<and> (\<forall>k. normalizedField (mergeEntry Combine kept item) k
             = (case normalizedField kept k of
                  Some v \<Rightarrow> Some v
                | None \<Rightarrow> normalizedField item k))
    \<and> (\<exists>added. e_fieldMap (mergeEntry Combine kept item) = Some (km @ added))
    \<and> e_fields (mergeEntry Combine kept item) = e_fields kept
    \<and> (\<forall>k. normalizedField (mergeEntry Overwrite kept item) k
             = (case normalizedField item k of
                  Some v \<Rightarrow> Some v
                | None \<Rightarrow> normalizedField kept k))
    \<and> e_fields (mergeEntry Overwrite kept item) = e_fields kept
    \<and> mergeEntry First kept item = kept
    \<and> e_fields (mergeEntry Last kept item) = e_fields item
    \<and> e_fieldMap (mergeEntry Last kept item) = e_fieldMap kept"
proof -
  have 1: "s_items (mergeDuplicate opts i item j st) ! j
             = EntryItem (mergeEntry (o_mergeStrategy opts) kept item)"
    using assms(1-3) by (simp add: mergeDuplicate_def)
  have 2: "normalizedField (mergeEntry Combine kept item) k
             = (case normalizedField kept k of
                  Some v \<Rightarrow> Some v
                | None \<Rightarrow> normalizedField item k)" for k
    using assms(4,5) by (simp add: mergeEntry_def normalizedField_def mapGet_def combine_lookup split: option.split)
  have 3: "\<exists>added. e_fieldMap (mergeEntry Combine kept item) = Some (km @ added)"
    using assms(4,5) combine_prefix [of km am] by (auto simp: mergeEntry_def)
  have 4: "normalizedField (mergeEntry Overwrite kept item) k
             = (case normalizedField item k of
                  Some v \<Rightarrow> Some v
                | None \<Rightarrow> normalizedField kept k)" for k
    using assms(4-6)
    by (simp add: mergeEntry_def normalizedField_def mapGet_def overwrite_lookup split: option.split)
  have 5: "e_fields (mergeEntry Combine kept item) = e_fields kept"
    "e_fields (mergeEntry Overwrite kept item) = e_fields kept"
    "mergeEntry First kept item = kept"
    "e_fields (mergeEntry Last kept item) = e_fields item"
    "e_fieldMap (mergeEntry Last kept item) = e_fieldMap kept"
    using assms(4,5) by (simp_all add: mergeEntry_def)
  from 1 2 3 4 5 show ?thesis by blast
qed

theorem merge_strategies_witness:
  "s_items (indexEntries defaultOptions sampleEnv sampleItems) ! 0 = EntryItem (withMap sampleFirst)
   \<and> s_items (mergeDuplicate defaultOptions 2 (withMap sampleSecond) 0
                (indexEntries defaultOptions sampleEnv sampleItems)) ! 0
       = EntryItem (mergeEntry Combine (withMap sampleFirst) (withMap sampleSecond))
   \<and> normalizedField (mergeEntry Combine (withMap sampleFirst) (withMap sampleSecond)) (js ''title'')
       = Some \<lparr>v_value = js ''The impossible book'', v_datatype = Braced\<rparr>
   \<and> normalizedField (mergeEntry Combine (withMap sampleFirst) (withMap sampleSecond)) (js ''n'')
       = Some \<lparr>v_value = js ''1'', v_datatype = Bare\<rparr>
   \<and> normalizedField (mergeEntry Overwrite (withMap sampleFirst) (withMap sampleSecond)) (js ''title'')
       = Some \<lparr>v_value = js ''Foo'', v_datatype = Braced\<rparr>
   \<and> normalizedField (mergeEntry Overwrite (withMap sampleFirst) (withMap sampleSecond)) (js ''year'')
       = Some \<lparr>v_value = js ''1942'', v_datatype = Bare\<rparr>
   \<and> mergeEntry First (withMap sampleFirst) (withMap sampleSecond) = withMap sampleFirst
   \<and> e_fields (mergeEntry Last (withMap sampleFirst) (withMap sampleSecond)) = e_fields sampleSecond"
proof -
  let ?st = "indexEntries defaultOptions sampleEnv sampleItems"
  let ?km = "buildFieldMap defaultOptions sampleEnv (e_fields sampleFirst) []"
  let ?am = "buildFieldMap defaultOptions sampleEnv (e_fields sampleSecond) []"
  have h1: "0 < length (s_items ?st)" by (simp add: sample_state)
  have h2: "(2::nat) \<noteq> 0" by simp
  have h3: "s_items ?st ! 0 = EntryItem (withMap sampleFirst)" by (simp add: sample_state)
  have h4: "e_fieldMap (withMap sampleFirst) = Some ?km" by (simp add: withMap_def)
  have h5: "e_fieldMap (withMap sampleSecond) = Some ?am" by (simp add: withMap_def)
  have h6: "distinct (map fst ?am)" by (simp add: sample_map2 js_def)
  have s: "o_mergeStrategy defaultOptions = Combine" by (simp add: defaultOptions_def)
  have k: "normalizedField (withMap sampleFirst) (js ''title'')
             = Some \<lparr>v_value = js ''The impossible book'', v_datatype = Braced\<rparr>"
    "normalizedField (withMap sampleFirst) (js ''n'') = None"
    "normalizedField (withMap sampleFirst) (js ''year'')
             = Some \<lparr>v_value = js ''1942'', v_datatype = Bare\<rparr>"
    by (simp_all add: normalizedField_def withMap_def sample_map1 mapGet_def js_def)
  have a: "normalizedField (withMap sampleSecond) (js ''title'')
             = Some \<lparr>v_value = js ''Foo'', v_datatype = Braced\<rparr>"
    "normalizedField (withMap sampleSecond) (js ''n'')
             = Some \<lparr>v_value = js ''1'', v_datatype = Bare\<rparr>"
    "normalizedField (withMap sampleSecond) (js ''year'') = None"
    by (simp_all add: normalizedField_def withMap_def sample_map2 mapGet_def js_def)
  have f: "e_fields (withMap sampleSecond) = e_fields sampleSecond" by (simp add: withMap_def)
  show ?thesis
    using merge_strategies [OF h1 h2 h3 h4 h5 h6, of defaultOptions] h3 s k a f
    by simp
qed

section \<open>Rendering of numeric values\<close>

text \<open>
  C6, as amended: when numeric rendering is enabled and the normalized value is a positive
  integer written without a leading zero (it matches \<open>/^[1-9][0-9]*$/\<close>), the
  serializer emits the value as it is, without braces or quotes, whatever the datatype of
  the field and the other options.
\<close>

theorem numeric_value_unquoted:
  "o_numeric opts \<Longrightarrow> matchesNumber (v_value fld) \<Longrightarrow>
     mapGet fm k = Some fld \<Longrightarrow>
     renderValue opts E k fld = v_value fld
     \<and> renderFields opts E fm (k # ks)
         = [44, 10] @ indent opts @ padEnd (alignOpt opts - 1) k @ js '' = ''
           @ v_value fld @ renderFields opts E fm ks"
  by (simp add: renderValue_def Let_def)

theorem numeric_value_unquoted_witness:
  "o_numeric (defaultOptions\<lparr>o_numeric := True\<rparr>)
   \<and> matchesNumber (js ''1942'')
   \<and> renderValue (defaultOptions\<lparr>o_numeric := True\<rparr>) sampleEnv (js ''year'')
        \<lparr>v_value = js ''1942'', v_datatype = Braced\<rparr> = js ''1942''"
proof -
  let ?opts = "defaultOptions\<lparr>o_numeric := True\<rparr>"
  let ?fld = "\<lparr>v_value = js ''1942'', v_datatype = Braced\<rparr>"
  have h1: "o_numeric ?opts" by simp
  have h2: "matchesNumber (v_value ?fld)" by (simp add: matchesNumber_def js_def isDigit_def)
  have h3: "mapGet [(js ''year'', ?fld)] (js ''year'') = Some ?fld" by (simp add: mapGet_def)
  show ?thesis
    using numeric_value_unquoted [OF h1 h2 h3, of sampleEnv "[]"] h1 h2 by simp
qed

text \<open>
  C6, as stated, fails: \<open>0\<close> is a non-negative integer, and with numeric rendering
  enabled a braced \<open>0\<close> is emitted in braces.
\<close>

theorem numeric_zero_is_braced:
  "renderValue (defaultOptions\<lparr>o_numeric := True\<rparr>) sampleEnv (js ''year'')
     \<lparr>v_value = js ''0'', v_datatype = Braced\<rparr> = js ''{0}''"
  by code_simp

section \<open>Whitespace in field values\<close>

lemma takeWhile_before_last:
  "xs \<noteq> [] \<Longrightarrow> \<not> P (last xs) \<Longrightarrow> takeWhile P (xs @ ys) = takeWhile P xs"
  by (rule takeWhile_append1 [of "last xs"]) simp_all

lemma dropWhile_before_last:
  "xs \<noteq> [] \<Longrightarrow> \<not> P (last xs) \<Longrightarrow> dropWhile P (xs @ ys) = dropWhile P xs @ ys"
  by (rule dropWhile_append1 [of "last xs"]) simp_all

lemma dropWhile_keeps_last:
  "xs \<noteq> [] \<Longrightarrow> \<not> P (last xs) \<Longrightarrow>
     dropWhile P xs \<noteq> [] \<and> last (dropWhile P xs) = last xs"
  by (induction xs) (auto split: if_splits)

lemma collapseNewlines_append:
  "pre = [] \<or> \<not> isSpace (last pre) \<Longrightarrow>
     collapseNewlines (pre @ s) = collapseNewlines pre @ collapseNewlines s"
proof (induction pre rule: collapseNewlines.induct)
  case 1
  show ?case by simp
next
  case (2 c p)
  from "2.prems" have l: "\<not> isSpace (last (c # p))" by simp
  show ?case
  proof (cases "isSpace c")
    case False
    have "p = [] \<or> \<not> isSpace (last p)" using l by (cases p) simp_all
    with False "2.IH"(2) show ?thesis by simp
  next
    case True
    with l have p: "p \<noteq> []" "\<not> isSpace (last p)" by (auto split: if_splits)
    have t: "takeWhile isSpace ((c # p) @ s) = takeWhile isSpace (c # p)"
      using l by (intro takeWhile_before_last) simp_all
    have d: "dropWhile isSpace (p @ s) = dropWhile isSpace p @ s"
      using p by (rule dropWhile_before_last)
    have k: "dropWhile isSpace p = [] \<or> \<not> isSpace (last (dropWhile isSpace p))"
      using dropWhile_keeps_last [of p isSpace] p by simp
    have q: "p = [] \<or> \<not> isSpace (last p)" using p by simp
    show ?thesis
    proof (cases "10 \<in> set (takeWhile isSpace (c # p))")
      case True
      with \<open>isSpace c\<close> t d "2.IH"(1) k show ?thesis by simp
    next
      case False
      with \<open>isSpace c\<close> t "2.IH"(2) q show ?thesis by simp
    qed
  qed
qed

lemma takeWhile_run:
  "list_all P w \<Longrightarrow> s = [] \<or> \<not> P (hd s) \<Longrightarrow> takeWhile P (w @ s) = w"
  by (induction w) (auto simp: takeWhile_eq_Nil_iff neq_Nil_conv)

lemma dropWhile_run:
  "list_all P w \<Longrightarrow> s = [] \<or> \<not> P (hd s) \<Longrightarrow> dropWhile P (w @ s) = s"
  by (induction w) (auto simp: dropWhile_eq_self_iff neq_Nil_conv)

lemma collapseNewlines_run_kept:
  "list_all isSpace w \<Longrightarrow> 10 \<notin> set w \<Longrightarrow> s = [] \<or> \<not> isSpace (hd s) \<Longrightarrow>
     collapseNewlines (w @ s) = w @ collapseNewlines s"
proof (induction w)
  case Nil
  show ?case by simp
next
  case (Cons c w)
  have "takeWhile isSpace ((c # w) @ s) = c # w"
    using Cons.prems by (intro takeWhile_run) simp_all
  with Cons show ?case by simp
qed

lemma collapseNewlines_run_collapsed:
  assumes "list_all isSpace w" and "10 \<in> set w" and "s = [] \<or> \<not> isSpace (hd s)"
  shows "collapseNewlines (w @ s) = 32 # collapseNewlines s"
proof (cases w)
  case Nil
  with assms show ?thesis by simp
next
  case (Cons c w')
  have t: "takeWhile isSpace ((c # w') @ s) = c # w'"
    using assms Cons by (intro takeWhile_run) simp_all
  have d: "dropWhile isSpace (w' @ s) = s"
    using assms Cons by (intro dropWhile_run) simp_all
  from assms Cons t d show ?thesis by simp
qed

lemma collapseNewlines_no_newline: "10 \<notin> set (collapseNewlines s)"
proof (induction s rule: collapseNewlines.induct)
  case 1
  show ?case by simp
next
  case (2 c s)
  have "c = 10 \<Longrightarrow> isSpace c \<and> 10 \<in> set (takeWhile isSpace (c # s))"
    by (simp add: isSpace_def)
  with 2 show ?case by auto
qed

lemma collapseNewlines_id: "10 \<notin> set s \<Longrightarrow> collapseNewlines s = s"
proof (induction s rule: collapseNewlines.induct)
  case 1
  show ?case by simp
next
  case (2 c s)
  have "10 \<notin> set (takeWhile isSpace (c # s))"
    using "2.prems" by (auto dest: set_takeWhileD split: if_splits)
  with 2 show ?case by auto
qed

lemma trim_edges:
  "trim s = [] \<or> (\<not> isSpace (hd (trim s)) \<and> \<not> isSpace (last (trim s)))"
proof -
  let ?u = "dropWhile isSpace s"
  let ?v = "dropWhile isSpace (rev ?u)"
  show ?thesis
  proof (cases "?v = []")
    case True
    then show ?thesis by (simp add: trim_def)
  next
    case False
    then have u: "?u \<noteq> []" by (metis dropWhile.simps(1) rev.simps(1))
    then have hu: "\<not> isSpace (hd ?u)" by (rule hd_dropWhile)
    from False have hv: "\<not> isSpace (hd ?v)" by (rule hd_dropWhile)
    have "rev ?u \<noteq> []" "\<not> isSpace (last (rev ?u))"
      using u hu by (simp_all add: last_rev)
    then have "last ?v = last (rev ?u)"
      using dropWhile_keeps_last [of "rev ?u" isSpace] by simp
    then have "last ?v = hd ?u" using u by (simp add: last_rev)
    with False hu hv show ?thesis
      by (simp add: trim_def hd_rev last_rev)
  qed
qed

lemma trim_id:
  "s = [] \<or> (\<not> isSpace (hd s) \<and> \<not> isSpace (last s)) \<Longrightarrow> trim s = s"
proof (cases s)
  case Nil
  then show ?thesis by (simp add: trim_def)
next
  case (Cons c t)
  assume "s = [] \<or> (\<not> isSpace (hd s) \<and> \<not> isSpace (last s))"
  with Cons have a: "\<not> isSpace c" and b: "\<not> isSpace (last s)" by simp_all
  from a Cons have 1: "dropWhile isSpace s = s" by simp
  from b Cons have 2: "dropWhile isSpace (rev s) = rev s"
    by (simp add: dropWhile_eq_self_iff hd_rev del: rev.simps)
  show ?thesis by (simp add: trim_def 1 2)
qed

lemma set_trim: "set (trim s) \<subseteq> set s"
  by (auto simp: trim_def dest!: set_dropWhileD)

lemma trim_parts:
  "s = takeWhile isSpace s @ trim s @ rev (takeWhile isSpace (rev (dropWhile isSpace s)))"
proof -
  let ?u = "dropWhile isSpace s"
  have "rev ?u = takeWhile isSpace (rev ?u) @ dropWhile isSpace (rev ?u)" by simp
  then have "rev (rev ?u) = rev (takeWhile isSpace (rev ?u) @ dropWhile isSpace (rev ?u))"
    by simp
  then have "?u = trim s @ rev (takeWhile isSpace (rev ?u))"
    by (simp add: trim_def del: takeWhile_dropWhile_id)
  moreover have "s = takeWhile isSpace s @ ?u" by simp
  ultimately show ?thesis by simp
qed

lemma whitespace_step_idem:
  "trim (collapseNewlines (trim (collapseNewlines v))) = trim (collapseNewlines v)"
proof -
  let ?t = "trim (collapseNewlines v)"
  have "10 \<notin> set ?t" using set_trim [of "collapseNewlines v"] collapseNewlines_no_newline [of v]
    by auto
  then have "collapseNewlines ?t = ?t" by (rule collapseNewlines_id)
  moreover have "trim ?t = ?t" by (rule trim_id) (rule trim_edges)
  ultimately show ?thesis by simp
qed

text \<open>
  C3, as amended: for every value that is not a concatenation, normalization replaces
  every run of whitespace that holds a newline by a single space and leaves every run
  without a newline as it is (\<open>w\<close> is a whole run: the text before it does not end and
  the text after it does not start with whitespace); then it removes the whitespace at
  both ends, and only there. This is done before every later step: the later steps see
  the value only through the result, and with all of them off the result is the value.
\<close>

theorem whitespace_normalization:
  assumes "pre = [] \<or> \<not> isSpace (last pre)" and "w \<noteq> []" and "list_all isSpace w"
    and "rest = [] \<or> \<not> isSpace (hd rest)"
  shows "collapseNewlines (pre @ w @ rest)
           = collapseNewlines pre @ (if 10 \<in> set w then [32] else w) @ collapseNewlines rest
    \<and> v = takeWhile isSpace v @ trim v @ rev (takeWhile isSpace (rev (dropWhile isSpace v)))
    \<and> (trim v = [] \<or> (\<not> isSpace (hd (trim v)) \<and> \<not> isSpace (last (trim v))))
    \<and> (f_datatype fld \<noteq> Concatinate \<longrightarrow>
          normalizeValue opts E lname fld
            = normalizeValue opts E lname
                (fld\<lparr>f_value := trim (collapseNewlines (f_value fld))\<rparr>))
    \<and> (f_datatype fld \<noteq> Concatinate \<and> \<not> o_stripEnclosingBraces opts
          \<and> \<not> o_dropAllCaps opts \<and> \<not> o_escape opts
          \<and> lname \<noteq> js ''url'' \<and> lname \<noteq> js ''pages'' \<longrightarrow>
          normalizeValue opts E lname fld = trim (collapseNewlines (f_value fld)))"
proof -
  have 1: "collapseNewlines (pre @ w @ rest)
             = collapseNewlines pre @ (if 10 \<in> set w then [32] else w) @ collapseNewlines rest"
    using assms
    by (simp add: collapseNewlines_append collapseNewlines_run_kept
        collapseNewlines_run_collapsed)
  have 2: "v = takeWhile isSpace v @ trim v @ rev (takeWhile isSpace (rev (dropWhile isSpace v)))"
    by (rule trim_parts)
  have 3: "trim v = [] \<or> (\<not> isSpace (hd (trim v)) \<and> \<not> isSpace (last (trim v)))"
    by (rule trim_edges)
  have 4: "normalizeValue opts E lname fld
             = normalizeValue opts E lname
                 (fld\<lparr>f_value := trim (collapseNewlines (f_value fld))\<rparr>)"
    if "f_datatype fld \<noteq> Concatinate"
    using that by (simp add: normalizeValue_def whitespace_step_idem)
  have 5: "normalizeValue opts E lname fld = trim (collapseNewlines (f_value fld))"
    if "f_datatype fld \<noteq> Concatinate \<and> \<not> o_stripEnclosingBraces opts
          \<and> \<not> o_dropAllCaps opts \<and> \<not> o_escape opts
          \<and> lname \<noteq> js ''url'' \<and> lname \<noteq> js ''pages''"
    using that by (simp add: normalizeValue_def)
  from 1 2 3 4 5 show ?thesis by blast
qed

theorem whitespace_normalization_witness:
  "list_all isSpace [32, 10, 9]
   \<and> collapseNewlines (js ''a'' @ [32, 10, 9] @ js ''b'') = js ''a b''
   \<and> collapseNewlines (js ''a'' @ [32, 9] @ js ''b'') = js ''a'' @ [32, 9] @ js ''b''
   \<and> trim ([32] @ js ''a b'' @ [10]) = js ''a b''
   \<and> normalizeValue defaultOptions sampleEnv (js ''title'') wrappedTitle = js ''a b  c''"
proof -
  have h1: "js ''a'' = [] \<or> \<not> isSpace (last (js ''a''))" by (simp add: str_defs)
  have h2: "[32, 10, 9] \<noteq> ([] :: nat list)" "[32, 9] \<noteq> ([] :: nat list)" by simp_all
  have h3: "list_all isSpace [32, 10, 9]" "list_all isSpace [32, 9]" by (simp_all add: str_defs)
  have h4: "js ''b'' = [] \<or> \<not> isSpace (hd (js ''b''))" by (simp add: str_defs)
  have c: "collapseNewlines (js ''a'') = js ''a''" "collapseNewlines (js ''b'') = js ''b''"
    by (simp_all add: str_defs)
  have t: "trim ([32] @ js ''a b'' @ [10]) = js ''a b''" by (simp add: str_defs)
  have n: "normalizeValue defaultOptions sampleEnv (js ''title'')
             (wrappedTitle\<lparr>f_value := trim (collapseNewlines (f_value wrappedTitle))\<rparr>)
           = js ''a b  c''"
    by (simp add: wrappedTitle_def str_defs env_defs opt_defs norm_defs)
  have d: "f_datatype wrappedTitle \<noteq> Concatinate" by (simp add: wrappedTitle_def)
  show ?thesis
    using whitespace_normalization [OF h1 h2(1) h3(1) h4, of "[]" wrappedTitle defaultOptions sampleEnv "js ''title''"]
      whitespace_normalization [OF h1 h2(2) h3(2) h4, of "[]" wrappedTitle defaultOptions sampleEnv "js ''title''"]
      h3 c t n d
    by (simp add: js_def)
qed

text \<open>
  C3, as stated, fails: a run of two spaces inside a value holds no newline and stays.
\<close>

theorem spaces_without_newline_are_kept:
  "normalizeValue defaultOptions sampleEnv (js ''title'')
     \<lparr> f_name = js ''title'', f_value = js ''a  b'', f_raw = js ''{a  b}'',
       f_datatype = Braced \<rparr> = js ''a  b''"
  by (simp add: str_defs env_defs opt_defs norm_defs)

section \<open>Sorting by several keys\<close>

lemmas sort_defs = isDesc_def stripDash_def sortValue_def itemCompare_def sortItems_def
  arraySort_def sortPlan_def
lemmas out_defs = matchesNumber_def renderValue_def newSet_def renderEntry_def isBlank_def
  stripCommentEdges_def serializeItem_def isEntry_def tidyItems_def tidy_def
  returnedEntries_def MONTHS_def DEFAULT_FIELD_ORDER_def DEFAULT_ENTRY_ORDER_def
  DEFAULT_INDEX_STRATEGY_def

lemma compare_flat [simp]: "compare flat a b = Equiv"
  by transfer simp

lemma compare_thenBy:
  "compare (thenBy c1 c2) a b =
     (case compare c1 a b of Less \<Rightarrow> Less | Equiv \<Rightarrow> compare c2 a b | Greater \<Rightarrow> Greater)"
  by (simp add: thenBy_def compare_prod_lex_apply split: comp.split)

lemma comparator_eqI: "(\<And>a b. compare c a b = compare d a b) \<Longrightarrow> c = d"
  by (simp add: compare_inject [symmetric] fun_eq_iff)

lemma itemCompare_sign:
  "itemCompare E sortIndexes k a b = sign (compare (keyComparator E sortIndexes k) a b)"
  by (simp add: itemCompare_def keyComparator_def localeCompare_def sign_def Let_def)

lemma compositeCompare_sign:
  "compositeCompare E sortIndexes ks a b
     = sign (compare (compositeComparator E sortIndexes ks) a b)"
  by (induction ks)
     (auto simp: itemCompare_sign compare_thenBy sign_def split: comp.splits)

lemma insertBy_insort:
  "insertBy (\<lambda>a b. sign (compare c a b)) y xs = insort c y xs"
  by (induction xs) (auto simp: sign_def split: comp.splits)

lemma arraySort_sort:
  "arraySort (\<lambda>a b. sign (compare c a b)) xs = Sorting_Algorithms.sort c xs"
  by (induction xs) (simp_all add: arraySort_def insertBy_insort)

lemma insort_map:
  "insort c (g y) (map g xs) = map g (insort (key g c) y xs)"
  by (induction xs) simp_all

lemma sort_map:
  "Sorting_Algorithms.sort c (map g xs) = map g (Sorting_Algorithms.sort (key g c) xs)"
  by (induction xs) (simp_all add: insort_map)

lemma sort_thenBy:
  "Sorting_Algorithms.sort c1 (Sorting_Algorithms.sort c2 xs)
     = Sorting_Algorithms.sort (thenBy c1 c2) xs"
proof -
  let ?d = "\<lambda>a. (a, a)"
  have k1: "key ?d (key fst c1) = c1" by (rule comparator_eqI) simp
  have k2: "key ?d (key snd c2) = c2" by (rule comparator_eqI) simp
  have "map ?d (Sorting_Algorithms.sort c1 (Sorting_Algorithms.sort c2 xs))
          = Sorting_Algorithms.sort (key fst c1) (Sorting_Algorithms.sort (key snd c2) (map ?d xs))"
    by (simp add: sort_map k1 k2)
  also have "\<dots> = Sorting_Algorithms.sort (prod_lex c1 c2) (map ?d xs)"
    using sort_comp_fst_snd_eq_sort_prod_lex [of c1 c2] by (simp add: fun_eq_iff)
  also have "\<dots> = map ?d (Sorting_Algorithms.sort (thenBy c1 c2) xs)"
    by (simp add: sort_map thenBy_def)
  finally show ?thesis
    by (simp add: inj_map_eq_map inj_on_def)
qed

lemma compositeComparator_snoc:
  "thenBy (compositeComparator E sortIndexes ks) (keyComparator E sortIndexes k)
     = compositeComparator E sortIndexes (ks @ [k])"
proof (induction ks)
  case Nil
  show ?case by (rule comparator_eqI) (simp add: compare_thenBy split: comp.splits)
next
  case (Cons k' ks)
  show ?case
    by (rule comparator_eqI) (simp add: compare_thenBy Cons.IH [symmetric] split: comp.splits)
qed

lemma insort_flat: "insort flat x xs = x # xs"
  by (cases xs) simp_all

lemma sort_flat: "Sorting_Algorithms.sort flat xs = xs"
  by (induction xs) (simp_all add: insort_flat)

lemma sortLoop_composite:
  "n \<le> length ks \<Longrightarrow>
     sortLoop E sortIndexes ks n items
       = Sorting_Algorithms.sort (compositeComparator E sortIndexes (take n ks)) items"
proof (induction n arbitrary: items)
  case 0
  show ?case by (simp add: sort_flat)
next
  case (Suc n)
  then have n: "n < length ks" by simp
  have c: "itemCompare E sortIndexes (ks ! n)
             = (\<lambda>a b. sign (compare (keyComparator E sortIndexes (ks ! n)) a b))"
    by (simp add: fun_eq_iff itemCompare_sign)
  show ?case
    using Suc.IH [of "Sorting_Algorithms.sort (keyComparator E sortIndexes (ks ! n)) items"] n
    by (simp add: c arraySort_sort sort_thenBy compositeComparator_snoc take_Suc_conv_app_nth)
qed

text \<open>
  C7: for every list of sort keys and every list of items, the loop that sorts stably
  once per key, from the last key to the first, gives the same order as one stable sort
  with the composite comparison function of the same keys in the same priority.
\<close>

theorem repeated_stable_sort_is_composite_sort:
  "sortItems E sortIndexes sortKeys items
     = arraySort (compositeCompare E sortIndexes sortKeys) items"
proof -
  have c: "compositeCompare E sortIndexes sortKeys
             = (\<lambda>a b. sign (compare (compositeComparator E sortIndexes sortKeys) a b))"
    by (simp add: fun_eq_iff compositeCompare_sign)
  show ?thesis
    by (simp add: sortItems_def sortLoop_composite c arraySort_sort)
qed

lemma sortSample_state:
  "s_items (indexEntries defaultOptions sampleEnv sortSample)
     = map (\<lambda>it. case it of EntryItem e \<Rightarrow> EntryItem (withMap e) | _ \<Rightarrow> it) sortSample"
  by (simp add: sortSample_def withMap_def str_defs env_defs opt_defs norm_defs index_defs)

theorem repeated_stable_sort_is_composite_sort_witness:
  "sortItems sampleEnv (sortSampleIndexes [js ''-year'', js ''key''])
     [js ''-year'', js ''key''] [0, 1, 2] = [0, 2, 1]
   \<and> arraySort (compositeCompare sampleEnv (sortSampleIndexes [js ''-year'', js ''key''])
         [js ''-year'', js ''key'']) [0, 1, 2] = [0, 2, 1]"
proof -
  have "arraySort (compositeCompare sampleEnv (sortSampleIndexes [js ''-year'', js ''key''])
         [js ''-year'', js ''key'']) [0, 1, 2] = [0, 2, 1]"
    by (simp add: sortSampleIndexes_def sortSample_state sortSample_def withMap_def
        str_defs env_defs opt_defs norm_defs index_defs sort_defs)
  then show ?thesis
    using repeated_stable_sort_is_composite_sort
      [of sampleEnv "sortSampleIndexes [js ''-year'', js ''key'']"
          "[js ''-year'', js ''key'']" "[0, 1, 2]"]
    by simp
qed

section \<open>Entries without the sort field\<close>

text \<open>
  C1: the code does not do what the claim and the comment at line 396 say. The sort index
  of an entry holds the empty string for a field that the entry lacks (line 380), so the
  sentinel of line 397 is never used for an entry. Sorted by \<open>year\<close> ascending, the
  entry without a year (address 1) comes first, before 1999 and 2001.
\<close>

theorem entry_without_sort_field_sorts_first:
  "sortValue (sortSampleIndexes [js ''year'']) (js ''year'') 1 = []
   \<and> r_entries (tidyItems sampleEnv (defaultOptions\<lparr>o_sort := List [js ''year'']\<rparr>)
         sortSample) = [1, 2, 0]"
  by (simp add: sortSampleIndexes_def sortSample_def withMap_def
        str_defs env_defs opt_defs norm_defs index_defs sort_defs out_defs)

section \<open>Dropped duplicates in the output and in the result\<close>

subsection \<open>The first loop\<close>

lemma register_items [simp]: "s_items (register crit sig i st) = s_items st"
  by (cases crit) (simp_all add: register_def)

lemma mergeDuplicate_length [simp]:
  "length (s_items (mergeDuplicate opts i item j st)) = length (s_items st)"
  by (simp add: mergeDuplicate_def split: item.split)

lemma checkCriteria_length [simp]:
  "length (s_items (checkCriteria opts E i item crits st)) = length (s_items st)"
  by (induction crits arbitrary: st) (auto split: option.split)

lemma processItem_length [simp]:
  "length (s_items (processItem opts E st i)) = length (s_items st)"
  by (simp add: processItem_def Let_def split: item.split)

lemma foldl_processItem_length [simp]:
  "length (s_items (foldl (processItem opts E) st is)) = length (s_items st)"
  by (induction "is" arbitrary: st) simp_all

lemma indexEntries_length [simp]:
  "length (s_items (indexEntries opts E items)) = length items"
  by (simp add: indexEntries_def initialState_def)

lemma mergeEntry_map:
  "e_fieldMap duplicateOf \<noteq> None \<Longrightarrow> e_fieldMap (mergeEntry s duplicateOf item) \<noteq> None"
  by (cases s) (auto simp: mergeEntry_def split: option.split)

lemma mergeDuplicate_hasMap:
  assumes "e_fieldMap item \<noteq> None" and "hasMap (s_items st ! a)" and "a < length (s_items st)"
  shows "hasMap (s_items (mergeDuplicate opts i item j st) ! a)"
proof (cases "s_items st ! j")
  case (EntryItem duplicateOf)
  show ?thesis
  proof (cases "a = j")
    case True
    with assms EntryItem have "e_fieldMap duplicateOf \<noteq> None" by (simp add: hasMap_def)
    then have "e_fieldMap (mergeEntry (o_mergeStrategy opts) duplicateOf item) \<noteq> None"
      by (rule mergeEntry_map)
    with True assms EntryItem show ?thesis by (simp add: mergeDuplicate_def hasMap_def)
  next
    case False
    with assms EntryItem show ?thesis
      by (cases "a = i") (simp_all add: mergeDuplicate_def hasMap_def)
  qed
qed (use assms in \<open>simp_all add: mergeDuplicate_def\<close>)

lemma checkCriteria_hasMap:
  "e_fieldMap item \<noteq> None \<Longrightarrow> hasMap (s_items st ! a) \<Longrightarrow> a < length (s_items st) \<Longrightarrow>
     hasMap (s_items (checkCriteria opts E i item crits st) ! a)"
  by (induction crits arbitrary: st) (auto simp: mergeDuplicate_hasMap split: option.split)

lemma processItem_hasMap:
  assumes "a < length (s_items st)" and "hasMap (s_items st ! a) \<or> a = i"
  shows "hasMap (s_items (processItem opts E st i) ! a)"
proof (cases "s_items st ! i")
  case (EntryItem e)
  let ?item = "e\<lparr>e_fieldMap := Some (buildFieldMap opts E (e_fields e) [])\<rparr>"
  let ?st1 = "if noKey e
      then st\<lparr>s_warnings := s_warnings st @
             [MISSING_KEY (keyStr (e_key e) @ js '' does not have an entry key.'') i]\<rparr>
      else st"
  let ?st2 = "?st1\<lparr>s_items := (s_items ?st1)[i := EntryItem ?item]\<rparr>"
  have p: "processItem opts E st i = checkCriteria opts E i ?item (uniqCheck opts) ?st2"
    using EntryItem by (simp add: processItem_def Let_def)
  have l: "a < length (s_items ?st2)" using assms(1) by simp
  have h: "hasMap (s_items ?st2 ! a)"
    using assms by (cases "a = i") (auto simp: hasMap_def)
  have m: "e_fieldMap ?item \<noteq> None" by simp
  show ?thesis
    unfolding p by (rule checkCriteria_hasMap [OF m h l])
qed (use assms in \<open>auto simp: processItem_def hasMap_def\<close>)

lemma foldl_processItem_hasMap:
  "a < length (s_items st) \<Longrightarrow> hasMap (s_items st ! a) \<or> a \<in> set is \<Longrightarrow>
     hasMap (s_items (foldl (processItem opts E) st is) ! a)"
proof (induction "is" arbitrary: st)
  case Nil
  then show ?case by simp
next
  case (Cons i "is")
  show ?case
  proof (cases "hasMap (s_items st ! a) \<or> a = i")
    case True
    with Cons.prems(1) have "hasMap (s_items (processItem opts E st i) ! a)"
      by (intro processItem_hasMap) simp_all
    with Cons.IH [of "processItem opts E st i"] Cons.prems(1) show ?thesis by simp
  next
    case False
    with Cons.prems have "a \<in> set is" by auto
    with Cons.IH [of "processItem opts E st i"] Cons.prems(1) show ?thesis by simp
  qed
qed

lemma indexEntries_hasMap:
  "a < length items \<Longrightarrow> hasMap (s_items (indexEntries opts E items) ! a)"
  by (simp add: indexEntries_def initialState_def foldl_processItem_hasMap)

text \<open>
  In every state of the first loop the indexes hold only entries with their maps: the
  merge resolver always finds both maps, and the branch of \<open>mergeEntry\<close> for an
  absent map is never taken.
\<close>

lemma lookupIndex_register:
  "lookupIndex crit' (register crit sig i st) sig' =
     (if crit' = crit \<and> sig' = sig then Some i else lookupIndex crit' st sig')"
  by (cases crit; cases crit') (simp_all add: lookupIndex_def register_def)

lemma lookupIndex_items [simp]:
  "lookupIndex crit (st\<lparr>s_items := xs\<rparr>) sig = lookupIndex crit st sig"
  "lookupIndex crit (st\<lparr>s_warnings := ws\<rparr>) sig = lookupIndex crit st sig"
  by (cases crit; simp add: lookupIndex_def)+

lemma indexedWithMaps_register:
  assumes "indexedWithMaps st" and "i < length (s_items st)"
    and "s_items st ! i = EntryItem item" and "e_fieldMap item \<noteq> None"
  shows "indexedWithMaps (register crit sig i st)"
  using assms
  by (auto simp: indexedWithMaps_def lookupIndex_register isEntry_def hasMap_def)

lemma indexedWithMaps_mergeDuplicate:
  assumes "indexedWithMaps st" and "e_fieldMap item \<noteq> None"
  shows "indexedWithMaps (mergeDuplicate opts i item j st)"
proof (cases "s_items st ! j")
  case (EntryItem duplicateOf)
  let ?xs = "(s_items st)[i := EntryItem (item\<lparr>e_duplicate := True\<rparr>),
                          j := EntryItem (mergeEntry (o_mergeStrategy opts) duplicateOf item)]"
  have l: "lookupIndex crit (mergeDuplicate opts i item j st) sig = lookupIndex crit st sig"
    for crit sig
    using EntryItem by (simp add: mergeDuplicate_def)
  have x: "s_items (mergeDuplicate opts i item j st) = ?xs"
    using EntryItem by (simp add: mergeDuplicate_def)
  have "isEntry (?xs ! a) \<and> hasMap (?xs ! a)"
    if a: "a < length (s_items st)" and e: "isEntry (s_items st ! a)"
      and h: "hasMap (s_items st ! a)" for a
  proof (cases "a = j")
    case True
    with h EntryItem have "e_fieldMap duplicateOf \<noteq> None" by (simp add: hasMap_def)
    then have "e_fieldMap (mergeEntry (o_mergeStrategy opts) duplicateOf item) \<noteq> None"
      by (rule mergeEntry_map)
    with True a show ?thesis by (simp add: isEntry_def hasMap_def)
  next
    case False
    with a e h assms(2) show ?thesis
      by (cases "a = i") (simp_all add: isEntry_def hasMap_def)
  qed
  with assms(1) show ?thesis
    unfolding indexedWithMaps_def l x by simp
qed (use assms in \<open>simp_all add: mergeDuplicate_def\<close>)

lemma indexedWithMaps_checkCriteria:
  "indexedWithMaps st \<Longrightarrow> i < length (s_items st) \<Longrightarrow> s_items st ! i = EntryItem item \<Longrightarrow>
   e_fieldMap item \<noteq> None \<Longrightarrow>
     indexedWithMaps (checkCriteria opts E i item crits st)"
proof (induction crits arbitrary: st)
  case Nil
  then show ?case by simp
next
  case (Cons p crits)
  obtain crit merge where p: "p = (crit, merge)" by (cases p)
  show ?case
  proof (cases "signature E crit item")
    case None
    with Cons p show ?thesis by simp
  next
    case (Some sig)
    show ?thesis
    proof (cases "lookupIndex crit st sig")
      case None
      have "indexedWithMaps (register crit sig i st)"
        using Cons.prems by (intro indexedWithMaps_register) simp_all
      with Cons.IH [of "register crit sig i st"] Cons.prems Some None p show ?thesis
        by simp
    next
      case (Some j)
      have "indexedWithMaps (mergeDuplicate opts i item j st)"
        using Cons.prems by (intro indexedWithMaps_mergeDuplicate) simp_all
      moreover have "indexedWithMaps (st\<lparr>s_warnings := ws\<rparr>)" for ws
        using Cons.prems(1) by (simp add: indexedWithMaps_def)
      ultimately show ?thesis
        using \<open>signature E crit item = Some sig\<close> Some p by simp
    qed
  qed
qed

lemma indexedWithMaps_processItem:
  assumes "indexedWithMaps st" and "i < length (s_items st)"
  shows "indexedWithMaps (processItem opts E st i)"
proof (cases "s_items st ! i")
  case (EntryItem e)
  let ?item = "e\<lparr>e_fieldMap := Some (buildFieldMap opts E (e_fields e) [])\<rparr>"
  let ?st1 = "if noKey e
      then st\<lparr>s_warnings := s_warnings st @
             [MISSING_KEY (keyStr (e_key e) @ js '' does not have an entry key.'') i]\<rparr>
      else st"
  let ?st2 = "?st1\<lparr>s_items := (s_items ?st1)[i := EntryItem ?item]\<rparr>"
  have p: "processItem opts E st i = checkCriteria opts E i ?item (uniqCheck opts) ?st2"
    using EntryItem by (simp add: processItem_def Let_def)
  have "isEntry ((s_items st)[i := EntryItem ?item] ! a)
        \<and> hasMap ((s_items st)[i := EntryItem ?item] ! a)"
    if "a < length (s_items st)" "isEntry (s_items st ! a)" "hasMap (s_items st ! a)" for a
    using that by (cases "a = i") (simp_all add: isEntry_def hasMap_def)
  with assms(1) have 2: "indexedWithMaps ?st2"
    by (simp add: indexedWithMaps_def)
  show ?thesis
    unfolding p
    using assms(2) by (intro indexedWithMaps_checkCriteria [OF 2]) simp_all
qed (use assms in \<open>simp_all add: processItem_def\<close>)

lemma indexedWithMaps_foldl:
  "indexedWithMaps st \<Longrightarrow> list_all (\<lambda>i. i < length (s_items st)) is \<Longrightarrow>
     indexedWithMaps (foldl (processItem opts E) st is)"
proof (induction "is" arbitrary: st)
  case Nil
  then show ?case by simp
next
  case (Cons i "is")
  then show ?case by (simp add: indexedWithMaps_processItem)
qed

lemma indexedWithMaps_prefix:
  "n \<le> length items \<Longrightarrow>
     indexedWithMaps (foldl (processItem opts E) (initialState items) [0 ..< n])"
  by (rule indexedWithMaps_foldl)
     (simp_all add: indexedWithMaps_def initialState_def lookupIndex_def list_all_iff
        split: UniqueKey.split)

subsection \<open>The sort\<close>

lemma mset_insertBy [simp]: "mset (insertBy cmp y xs) = add_mset y (mset xs)"
  by (induction xs) simp_all

lemma mset_arraySort [simp]: "mset (arraySort cmp xs) = mset xs"
  by (induction xs) (simp_all add: arraySort_def)

lemma mset_sortLoop [simp]: "mset (sortLoop E sortIndexes ks n xs) = mset xs"
  by (induction n arbitrary: xs) simp_all

lemma mset_sortPlan: "mset (sortPlan opts E items) = mset [0 ..< length items]"
  by (simp add: sortPlan_def sortItems_def split: option.split)

lemma set_sortPlan: "set (sortPlan opts E items) = {0 ..< length items}"
  using mset_sortPlan [of opts E items, THEN mset_eq_setD] by simp

lemma distinct_sortPlan: "distinct (sortPlan opts E items)"
  using mset_sortPlan [of opts E items] by (metis distinct_upt mset_eq_imp_distinct_iff)

subsection \<open>The output loop\<close>

lemma serialize_length [simp]:
  "length (snd (serialize opts E order (bibtex, items))) = length items"
  by (induction order arbitrary: bibtex items) simp_all

lemma serialize_text:
  "distinct order \<Longrightarrow>
     fst (serialize opts E order (bibtex, items))
       = bibtex @ concat (map (\<lambda>a. fst (serializeItem opts E (items ! a))) order)"
proof (induction order arbitrary: bibtex items)
  case Nil
  show ?case by simp
next
  case (Cons a order)
  have "items[a := snd (serializeItem opts E (items ! a))] ! b = items ! b"
    if "b \<in> set order" for b
  proof -
    from that Cons.prems have "a \<noteq> b" by auto
    then show ?thesis by simp
  qed
  then have "map (\<lambda>b. fst (serializeItem opts E (items[a := snd (serializeItem opts E (items ! a))] ! b))) order
          = map (\<lambda>b. fst (serializeItem opts E (items ! b))) order"
    by simp
  then have "concat (map (\<lambda>b. fst (serializeItem opts E (items[a := snd (serializeItem opts E (items ! a))] ! b))) order)
          = concat (map (\<lambda>b. fst (serializeItem opts E (items ! b))) order)"
    by (rule arg_cong)
  moreover have "distinct order" using Cons.prems by simp
  ultimately show ?case using Cons.IH by simp
qed

lemma serialize_items:
  "distinct order \<Longrightarrow> a < length items \<Longrightarrow>
     snd (serialize opts E order (bibtex, items)) ! a
       = (if a \<in> set order then snd (serializeItem opts E (items ! a)) else items ! a)"
proof (induction order arbitrary: bibtex items)
  case Nil
  show ?case by simp
next
  case (Cons b order)
  show ?case
    using Cons.IH [of "items[b := snd (serializeItem opts E (items ! b))]"] Cons.prems
    by (cases "a = b") auto
qed

lemma serializeItem_dropped:
  "dropped it \<Longrightarrow> serializeItem opts E it = ([], it)"
  by (cases it) (simp_all add: dropped_def serializeItem_def)

lemma concat_skip_empty:
  "(\<And>x. x \<in> set xs \<Longrightarrow> \<not> P x \<Longrightarrow> f x = []) \<Longrightarrow>
     concat (map f xs) = concat (map f (filter P xs))"
  by (induction xs) auto

lemma tidyItems_items:
  assumes "a < length parsed"
  shows "r_items (tidyItems E opts parsed) ! a
           = snd (serializeItem opts E (s_items (indexEntries opts E parsed) ! a))"
proof -
  let ?st = "indexEntries opts E parsed"
  let ?order = "sortPlan opts E (s_items ?st)"
  have "a \<in> set ?order" using assms by (simp add: set_sortPlan)
  then show ?thesis
    using assms serialize_items [of ?order a "s_items ?st" opts E "[]"]
    by (simp add: tidyItems_def Let_def distinct_sortPlan)
qed

lemma tidyItems_entries:
  "set (r_entries (tidyItems E opts parsed))
     = {a. a < length parsed \<and> isEntry (s_items (indexEntries opts E parsed) ! a)}"
proof -
  let ?st = "indexEntries opts E parsed"
  have k: "isEntry (snd (serializeItem opts E it)) = isEntry it" for it
    by (cases it) (simp_all add: serializeItem_def isEntry_def)
  have "isEntry (r_items (tidyItems E opts parsed) ! a) = isEntry (s_items ?st ! a)"
    if "a < length parsed" for a
    using that by (simp add: tidyItems_items k)
  moreover have "r_entries (tidyItems E opts parsed)
      = filter (\<lambda>a. isEntry (r_items (tidyItems E opts parsed) ! a)) (sortPlan opts E (s_items ?st))"
    by (simp add: tidyItems_def Let_def)
  ultimately show ?thesis
    by (auto simp: set_sortPlan)
qed

lemma tidyItems_text:
  "r_bibtex (tidyItems E opts parsed)
     = (let text = concat (map (\<lambda>a. fst (serializeItem opts E (s_items (indexEntries opts E parsed) ! a)))
                      (filter (\<lambda>a. \<not> dropped (s_items (indexEntries opts E parsed) ! a))
                         (sortPlan opts E (s_items (indexEntries opts E parsed)))))
        in if \<not> endsWith text [10] then text @ [10] else text)"
proof -
  let ?st = "indexEntries opts E parsed"
  let ?order = "sortPlan opts E (s_items ?st)"
  let ?f = "\<lambda>a. fst (serializeItem opts E (s_items ?st ! a))"
  have "fst (serialize opts E ?order ([], s_items ?st)) = concat (map ?f ?order)"
    using serialize_text [of ?order opts E "[]" "s_items ?st"] by (simp add: distinct_sortPlan)
  also have "\<dots> = concat (map ?f (filter (\<lambda>a. \<not> dropped (s_items ?st ! a)) ?order))"
    by (rule concat_skip_empty) (simp add: serializeItem_dropped)
  finally show ?thesis by (simp add: tidyItems_def Let_def)
qed

lemma sample_merge_state:
  "s_items (indexEntries mergeByKey sampleEnv sampleItems)
     = [EntryItem (mergeEntry Combine (withMap sampleFirst) (withMap sampleSecond)),
        CommentItem [10],
        EntryItem ((withMap sampleSecond)\<lparr>e_duplicate := True\<rparr>)]"
  by (simp add: mergeByKey_def sampleItems_def withMap_def sampleFirst_def sampleSecond_def
        str_defs env_defs opt_defs norm_defs index_defs)

lemma sample_parse: "parse sampleEnv sampleText = sampleItems"
  by (simp add: sampleEnv_def)

lemma sample_merge_text:
  "r_bibtex (tidy sampleEnv sampleText mergeByKey)
     = js ''@book{sweig42,'' @ [10] @ js ''  title         = {The impossible book},'' @ [10]
       @ js ''  year          = 1942,'' @ [10] @ js ''  n             = 1'' @ [10, 125, 10]"
  by (simp add: mergeByKey_def sampleText_def sampleItems_def sampleFirst_def sampleSecond_def
        str_defs env_defs opt_defs norm_defs index_defs sort_defs out_defs)

text \<open>
  C5: every entry that the first loop has flagged as a dropped duplicate is in the
  returned list of entries, with its flag set, and the text is the serialization of the
  other items alone, in the order of the sort: a dropped duplicate adds nothing to it.
\<close>

theorem dropped_duplicates_excluded_but_returned:
  "(\<forall>a < length (parse E input).
       dropped (s_items (indexEntries opts E (parse E input)) ! a) \<longrightarrow>
         a \<in> set (r_entries (tidy E input opts)) \<and> dropped (r_items (tidy E input opts) ! a))
   \<and> r_bibtex (tidy E input opts)
       = (let text = concat (map (\<lambda>a. fst (serializeItem opts E
                                     (s_items (indexEntries opts E (parse E input)) ! a)))
                        (filter (\<lambda>a. \<not> dropped (s_items (indexEntries opts E (parse E input)) ! a))
                           (sortPlan opts E (s_items (indexEntries opts E (parse E input))))))
          in if \<not> endsWith text [10] then text @ [10] else text)"
proof -
  let ?st = "indexEntries opts E (parse E input)"
  have "a \<in> set (r_entries (tidy E input opts)) \<and> dropped (r_items (tidy E input opts) ! a)"
    if a: "a < length (parse E input)" and d: "dropped (s_items ?st ! a)" for a
  proof -
    from d have "isEntry (s_items ?st ! a)"
      by (cases "s_items ?st ! a") (simp_all add: dropped_def isEntry_def)
    with a have "a \<in> set (r_entries (tidy E input opts))"
      by (simp add: tidy_def tidyItems_entries)
    moreover have "r_items (tidy E input opts) ! a = s_items ?st ! a"
      using a d by (simp add: tidy_def tidyItems_items serializeItem_dropped)
    ultimately show ?thesis using d by simp
  qed
  then show ?thesis
    using tidyItems_text [of E opts "parse E input"] by (simp add: tidy_def)
qed

theorem dropped_duplicates_excluded_but_returned_witness:
  "2 < length (parse sampleEnv sampleText)
   \<and> dropped (s_items (indexEntries mergeByKey sampleEnv (parse sampleEnv sampleText)) ! 2)
   \<and> 2 \<in> set (r_entries (tidy sampleEnv sampleText mergeByKey))
   \<and> dropped (r_items (tidy sampleEnv sampleText mergeByKey) ! 2)
   \<and> r_bibtex (tidy sampleEnv sampleText mergeByKey)
       = js ''@book{sweig42,'' @ [10] @ js ''  title         = {The impossible book},'' @ [10]
         @ js ''  year          = 1942,'' @ [10] @ js ''  n             = 1'' @ [10, 125, 10]"
proof -
  have h1: "2 < length (parse sampleEnv sampleText)"
    by (simp add: sample_parse sampleItems_def)
  have h2: "dropped (s_items (indexEntries mergeByKey sampleEnv (parse sampleEnv sampleText)) ! 2)"
    by (simp add: sample_parse sample_merge_state dropped_def)
  from dropped_duplicates_excluded_but_returned [of sampleEnv sampleText mergeByKey] h1 h2
  have "2 \<in> set (r_entries (tidy sampleEnv sampleText mergeByKey))
        \<and> dropped (r_items (tidy sampleEnv sampleText mergeByKey) ! 2)"
    by blast
  with h1 h2 sample_merge_text show ?thesis by blast
qed

text \<open>
  C10: in the result, every entry that was not flagged as a dropped duplicate has no
  \<open>fieldMap\<close> any more, and every entry that was flagged still has the map that the
  first loop built for it, unchanged; both are in the returned list, and nothing else is.
\<close>

theorem fieldMap_removed_only_from_emitted_entries:
  "\<forall>a < length (parse E input).
     (case s_items (indexEntries opts E (parse E input)) ! a of
        EntryItem e \<Rightarrow>
          a \<in> set (r_entries (tidy E input opts))
          \<and> (if e_duplicate e
              then e_fieldMap e \<noteq> None \<and> r_items (tidy E input opts) ! a = EntryItem e
              else r_items (tidy E input opts) ! a = EntryItem (e\<lparr>e_fieldMap := None\<rparr>))
      | _ \<Rightarrow> a \<notin> set (r_entries (tidy E input opts)))"
proof (intro allI impI)
  fix a
  assume a: "a < length (parse E input)"
  let ?st = "indexEntries opts E (parse E input)"
  have m: "hasMap (s_items ?st ! a)" using a by (rule indexEntries_hasMap)
  have i: "r_items (tidy E input opts) ! a = snd (serializeItem opts E (s_items ?st ! a))"
    using a by (simp add: tidy_def tidyItems_items)
  have e: "a \<in> set (r_entries (tidy E input opts)) \<longleftrightarrow> isEntry (s_items ?st ! a)"
    using a by (simp add: tidy_def tidyItems_entries)
  show "case s_items ?st ! a of
        EntryItem e \<Rightarrow>
          a \<in> set (r_entries (tidy E input opts))
          \<and> (if e_duplicate e
              then e_fieldMap e \<noteq> None \<and> r_items (tidy E input opts) ! a = EntryItem e
              else r_items (tidy E input opts) ! a = EntryItem (e\<lparr>e_fieldMap := None\<rparr>))
      | _ \<Rightarrow> a \<notin> set (r_entries (tidy E input opts))"
    using m i e
    by (cases "s_items ?st ! a") (simp_all add: hasMap_def isEntry_def serializeItem_def)
qed

theorem fieldMap_removed_only_from_emitted_entries_witness:
  "0 \<in> set (r_entries (tidy sampleEnv sampleText mergeByKey))
   \<and> r_items (tidy sampleEnv sampleText mergeByKey) ! 0
       = EntryItem ((mergeEntry Combine (withMap sampleFirst) (withMap sampleSecond))
                      \<lparr>e_fieldMap := None\<rparr>)
   \<and> 2 \<in> set (r_entries (tidy sampleEnv sampleText mergeByKey))
   \<and> r_items (tidy sampleEnv sampleText mergeByKey) ! 2
       = EntryItem ((withMap sampleSecond)\<lparr>e_duplicate := True\<rparr>)
   \<and> e_fieldMap ((withMap sampleSecond)\<lparr>e_duplicate := True\<rparr>)
       = Some [(js ''title'', \<lparr>v_value = js ''Foo'', v_datatype = Braced\<rparr>),
               (js ''n'', \<lparr>v_value = js ''1'', v_datatype = Bare\<rparr>)]"
proof -
  let ?st = "indexEntries mergeByKey sampleEnv (parse sampleEnv sampleText)"
  have l: "0 < length (parse sampleEnv sampleText)" "2 < length (parse sampleEnv sampleText)"
    by (simp_all add: sample_parse sampleItems_def)
  have s0: "s_items ?st ! 0
              = EntryItem (mergeEntry Combine (withMap sampleFirst) (withMap sampleSecond))"
    and s1: "s_items ?st ! 2 = EntryItem ((withMap sampleSecond)\<lparr>e_duplicate := True\<rparr>)"
    by (simp_all add: sample_parse sample_merge_state)
  have d0: "\<not> e_duplicate (mergeEntry Combine (withMap sampleFirst) (withMap sampleSecond))"
    by (simp add: mergeEntry_def withMap_def sampleFirst_def split: option.split)
  have m: "e_fieldMap ((withMap sampleSecond)\<lparr>e_duplicate := True\<rparr>)
       = Some [(js ''title'', \<lparr>v_value = js ''Foo'', v_datatype = Braced\<rparr>),
               (js ''n'', \<lparr>v_value = js ''1'', v_datatype = Bare\<rparr>)]"
    by (simp add: withMap_def sample_map2)
  note t = fieldMap_removed_only_from_emitted_entries [of sampleEnv sampleText mergeByKey]
  from t l(1) s0 d0 have 0: "0 \<in> set (r_entries (tidy sampleEnv sampleText mergeByKey))
     \<and> r_items (tidy sampleEnv sampleText mergeByKey) ! 0
       = EntryItem ((mergeEntry Combine (withMap sampleFirst) (withMap sampleSecond))
                      \<lparr>e_fieldMap := None\<rparr>)"
    by (auto split: item.splits)
  from t l(2) s1 have 1: "2 \<in> set (r_entries (tidy sampleEnv sampleText mergeByKey))
     \<and> r_items (tidy sampleEnv sampleText mergeByKey) ! 2
       = EntryItem ((withMap sampleSecond)\<lparr>e_duplicate := True\<rparr>)"
    by (auto split: item.splits)
  from 0 1 m show ?thesis by blast
qed

section \<open>Tidying the tidied text\<close>

text \<open>
  C9: the code is not idempotent. The page range \<open>1-2-3\<close> becomes \<open>1--2-3\<close>, because
  the search for the next match goes on after the second digit of a match; tidying the
  tidied text finds the single dash that is left and gives \<open>1--2--3\<close>.
\<close>

theorem tidy_twice_changes_page_range:
  "r_bibtex (tidy sampleEnv pagesText defaultOptions) = pagesTidied
   \<and> r_bibtex (tidy sampleEnv (r_bibtex (tidy sampleEnv pagesText defaultOptions)) defaultOptions)
       = js ''@article{k,'' @ [10] @ js ''  pages         = {1--2--3}'' @ [10, 125, 10]
   \<and> r_bibtex (tidy sampleEnv (r_bibtex (tidy sampleEnv pagesText defaultOptions)) defaultOptions)
       \<noteq> r_bibtex (tidy sampleEnv pagesText defaultOptions)"
proof -
  have p1: "r_bibtex (tidy sampleEnv pagesText defaultOptions) = pagesTidied"
    by (simp add: pagesText_def pagesTidied_def pagesEntry_def sampleText_def
        str_defs env_defs opt_defs norm_defs index_defs sort_defs out_defs)
  have p2: "r_bibtex (tidy sampleEnv pagesTidied defaultOptions)
      = js ''@article{k,'' @ [10] @ js ''  pages         = {1--2--3}'' @ [10, 125, 10]"
    by (simp add: pagesText_def pagesTidied_def pagesEntry_def sampleText_def
        str_defs env_defs opt_defs norm_defs index_defs sort_defs out_defs)
  have p3: "js ''@article{k,'' @ [10] @ js ''  pages         = {1--2--3}'' @ [10, 125, 10]
      \<noteq> pagesTidied"
    by (simp add: pagesTidied_def js_def)
  from p1 p2 p3 show ?thesis by simp
qed

section \<open>The merge strategy last\<close>

text \<open>
  C4: the code does not do what the claim says of \<open>last\<close>. Line 335 replaces the list
  \<open>fields\<close> of the kept entry, which nothing reads once the first loop has built the
  map of that entry (line 265). The normalized map, which the sort and the serializer
  read, stays that of the kept entry and is not built again. With the two entries of the
  sample merged on their key, \<open>last\<close> prints the fields of the first entry, the same
  text as \<open>first\<close>: the title is not replaced and the field \<open>n\<close> of the last
  entry is not there, against the documentation of the option at line 88 (only keep the
  last found duplicate). The clauses on \<open>combine\<close>, \<open>overwrite\<close> and \<open>first\<close>
  hold of the code.
\<close>

theorem last_strategy_prints_first_entry:
  "r_bibtex (tidy sampleEnv sampleText (mergeByKey\<lparr>o_mergeStrategy := Last\<rparr>))
     = js ''@book{sweig42,'' @ [10] @ js ''  title         = {The impossible book},'' @ [10]
       @ js ''  year          = 1942'' @ [10, 125, 10]
   \<and> r_bibtex (tidy sampleEnv sampleText (mergeByKey\<lparr>o_mergeStrategy := Last\<rparr>))
       = r_bibtex (tidy sampleEnv sampleText (mergeByKey\<lparr>o_mergeStrategy := First\<rparr>))
   \<and> normalizedField (mergeEntry Last (withMap sampleFirst) (withMap sampleSecond)) (js ''title'')
       = Some \<lparr>v_value = js ''The impossible book'', v_datatype = Braced\<rparr>
   \<and> normalizedField (mergeEntry Last (withMap sampleFirst) (withMap sampleSecond)) (js ''n'')
       = None"
proof -
  have l: "r_bibtex (tidy sampleEnv sampleText (mergeByKey\<lparr>o_mergeStrategy := Last\<rparr>))
     = js ''@book{sweig42,'' @ [10] @ js ''  title         = {The impossible book},'' @ [10]
       @ js ''  year          = 1942'' @ [10, 125, 10]"
    by (simp add: mergeByKey_def sampleText_def sampleItems_def sampleFirst_def
        sampleSecond_def str_defs env_defs opt_defs norm_defs index_defs sort_defs out_defs)
  have f: "r_bibtex (tidy sampleEnv sampleText (mergeByKey\<lparr>o_mergeStrategy := First\<rparr>))
     = js ''@book{sweig42,'' @ [10] @ js ''  title         = {The impossible book},'' @ [10]
       @ js ''  year          = 1942'' @ [10, 125, 10]"
    by (simp add: mergeByKey_def sampleText_def sampleItems_def sampleFirst_def
        sampleSecond_def str_defs env_defs opt_defs norm_defs index_defs sort_defs out_defs)
  have n: "normalizedField (mergeEntry Last (withMap sampleFirst) (withMap sampleSecond)) (js ''title'')
       = Some \<lparr>v_value = js ''The impossible book'', v_datatype = Braced\<rparr>"
    "normalizedField (mergeEntry Last (withMap sampleFirst) (withMap sampleSecond)) (js ''n'')
       = None"
    by (simp_all add: normalizedField_def mergeEntry_def withMap_def sample_map1 sample_map2
        mapGet_def js_def)
  from l f n show ?thesis by simp
qed

end
